theory Spec2Isabelle
  imports Complex_Main "HOL-Library.Sublist" "HOL-Library.AList"
begin

section \<open>JavaScript strings\<close>

text \<open>
  The normalizer of \<^verbatim>\<open>src/web/src/llm.js\<close> works on JavaScript strings. They are modelled
  as \<^typ>\<open>string\<close>, a list of 8-bit characters read as the code units 0 to 255 (Latin-1).
  Text with code units above 255 is outside the model.
\<close>

definition isWhiteSpace :: "char \<Rightarrow> bool" where
  \<comment> \<open>the code units below 256 that \<^verbatim>\<open>trim\<close> strips and \<^verbatim>\<open>\s\<close> matches:
      TAB, LF, VT, FF, CR, SPACE, NBSP\<close>
  "isWhiteSpace c \<longleftrightarrow>
     c = CHR 0x09 \<or> c = CHR 0x0A \<or> c = CHR 0x0B \<or> c = CHR 0x0C \<or> c = CHR 0x0D
     \<or> c = CHR 0x20 \<or> c = CHR 0xA0"

definition trim :: "string \<Rightarrow> string" where
  "trim s = rev (dropWhile isWhiteSpace (rev (dropWhile isWhiteSpace s)))"

definition lower_char :: "char \<Rightarrow> char" where
  \<comment> \<open>A to Z, and the Latin-1 capitals 0xC0 to 0xDE without the multiplication sign 0xD7\<close>
  "lower_char c =
     (let n = (of_char c :: nat)
      in if (65 \<le> n \<and> n \<le> 90) \<or> (192 \<le> n \<and> n \<le> 222 \<and> n \<noteq> 215)
         then char_of (n + 32) else c)"

definition toLowerCase :: "string \<Rightarrow> string" where
  "toLowerCase s = map lower_char s"

fun replace_g :: "string \<Rightarrow> string \<Rightarrow> string \<Rightarrow> string" where
  \<comment> \<open>\<^verbatim>\<open>s.replace(/pat/g, rep)\<close> for a pattern that is a non-empty literal: every match,
      leftmost first, without overlap\<close>
  "replace_g pat rep [] = []"
| "replace_g pat rep (c # cs) =
     (if prefix pat (c # cs) then rep @ replace_g pat rep (drop (length pat - 1) cs)
      else c # replace_g pat rep cs)"

definition norm :: "string \<Rightarrow> string" where
  "norm s = replace_g ''a.k.a'' ''aka'' (replace_g ''a.k.a.'' ''aka'' (trim (toLowerCase s)))"

definition matches :: "string \<Rightarrow> string \<Rightarrow> bool" where
  "matches respName canonical \<longleftrightarrow> norm respName = norm canonical"

section \<open>Decoded JSON values and \<^verbatim>\<open>JSON.parse\<close>\<close>

text \<open>
  A decoded value. Numbers are modelled by their exact rational value (a finite double is
  a rational; the rounding of a decimal literal to a double is not modelled). An object is
  the list of its members in insertion order, without duplicate keys when it comes from the
  parser.
\<close>

datatype json =
    JNull
  | JBool bool
  | JNum rat
  | JStr string
  | JArr "json list"
  | JObj "(string \<times> json) list"

text \<open>
  \<^verbatim>\<open>JSON.parse\<close> is a built-in of the language. It is modelled as a recursive-descent
  parser of the JSON grammar (ECMA-404). The recursion is on a fuel counter that the entry
  point sets above the length of the text; \<open>OutOfFuel\<close> keeps exhaustion apart from a
  syntax error.
\<close>

datatype 'a presult = Ok 'a | SyntaxError | OutOfFuel

definition isJsonWs :: "char \<Rightarrow> bool" where
  "isJsonWs c \<longleftrightarrow> c = CHR 0x20 \<or> c = CHR 0x09 \<or> c = CHR 0x0A \<or> c = CHR 0x0D"

definition skip_ws :: "string \<Rightarrow> string" where
  "skip_ws s = dropWhile isJsonWs s"

definition isDigit :: "char \<Rightarrow> bool" where
  "isDigit c \<longleftrightarrow> (48::nat) \<le> of_char c \<and> of_char c \<le> (57::nat)"

definition digits_val :: "string \<Rightarrow> nat" where
  "digits_val ds = foldl (\<lambda>a c. 10 * a + (of_char c - 48)) 0 ds"

definition hex_val :: "char \<Rightarrow> nat option" where
  "hex_val c =
     (let n = (of_char c :: nat)
      in if 48 \<le> n \<and> n \<le> 57 then Some (n - 48)
         else if 65 \<le> n \<and> n \<le> 70 then Some (n - 55)
         else if 97 \<le> n \<and> n \<le> 102 then Some (n - 87)
         else None)"

definition hex4 :: "char \<Rightarrow> char \<Rightarrow> char \<Rightarrow> char \<Rightarrow> nat option" where
  "hex4 a b c d =
     (case (hex_val a, hex_val b, hex_val c, hex_val d) of
        (Some x, Some y, Some z, Some w) \<Rightarrow> Some (((x * 16 + y) * 16 + z) * 16 + w)
      | _ \<Rightarrow> None)"

definition unescape :: "char \<Rightarrow> char option" where
  "unescape e =
     (if e = CHR 0x22 then Some (CHR 0x22)
      else if e = CHR 0x5C then Some (CHR 0x5C)
      else if e = CHR ''/'' then Some (CHR ''/'')
      else if e = CHR ''b'' then Some (CHR 0x08)
      else if e = CHR ''f'' then Some (CHR 0x0C)
      else if e = CHR ''n'' then Some (CHR 0x0A)
      else if e = CHR ''r'' then Some (CHR 0x0D)
      else if e = CHR ''t'' then Some (CHR 0x09)
      else None)"

fun parse_chars :: "string \<Rightarrow> (string \<times> string) option" where
  \<comment> \<open>the characters of a string literal after its opening quote, up to the closing quote;
      a \<^verbatim>\<open>\uXXXX\<close> escape above 255 is cut to 8 bits, as the model's characters are\<close>
  "parse_chars [] = None"
| "parse_chars (c # cs) =
     (if c = CHR 0x22 then Some ([], cs)
      else if c = CHR 0x5C then
        (case cs of
           [] \<Rightarrow> None
         | e # r \<Rightarrow>
             if e = CHR ''u'' then
               (case r of
                  h1 # h2 # h3 # h4 # r' \<Rightarrow>
                    (case hex4 h1 h2 h3 h4 of
                       None \<Rightarrow> None
                     | Some n \<Rightarrow> map_option (\<lambda>(str, rest). (char_of n # str, rest)) (parse_chars r'))
                | _ \<Rightarrow> None)
             else
               (case unescape e of
                  None \<Rightarrow> None
                | Some x \<Rightarrow> map_option (\<lambda>(str, rest). (x # str, rest)) (parse_chars r)))
      else if (of_char c :: nat) < 32 then None
      else map_option (\<lambda>(str, rest). (c # str, rest)) (parse_chars cs))"

definition parse_frac :: "string \<Rightarrow> (rat \<times> string) option" where
  "parse_frac s =
     (case s of
        [] \<Rightarrow> Some (0, s)
      | c # r \<Rightarrow>
          if c = CHR ''.'' then
            (let ds = takeWhile isDigit r
             in if ds = [] then None
                else Some (of_nat (digits_val ds) / 10 ^ length ds, dropWhile isDigit r))
          else Some (0, s))"

definition parse_exp :: "string \<Rightarrow> (int \<times> string) option" where
  "parse_exp s =
     (case s of
        [] \<Rightarrow> Some (0, s)
      | c # r \<Rightarrow>
          if c = CHR ''e'' \<or> c = CHR ''E'' then
            (let (sgn, r1) =
                   (case r of
                      [] \<Rightarrow> (1, r)
                    | x # r' \<Rightarrow>
                        if x = CHR ''+'' then (1, r')
                        else if x = CHR ''-'' then (- 1, r')
                        else (1, r));
                 ds = takeWhile isDigit r1
             in if ds = [] then None
                else Some (sgn * int (digits_val ds), dropWhile isDigit r1))
          else Some (0, s))"

definition parse_number :: "string \<Rightarrow> (rat \<times> string) option" where
  \<comment> \<open>\<^verbatim>\<open>-? (0 | [1-9][0-9]*) (. [0-9]+)? ([eE] [+-]? [0-9]+)?\<close>;
      the value is the exact rational of the literal, where \<^verbatim>\<open>JSON.parse\<close> rounds it to
      a double\<close>
  "parse_number s =
     (let (neg, s1) =
            (case s of
               [] \<Rightarrow> (False, s)
             | c # r \<Rightarrow> if c = CHR ''-'' then (True, r) else (False, s))
      in case s1 of
           [] \<Rightarrow> None
         | d # r \<Rightarrow>
             if \<not> isDigit d then None
             else
               (let (ip, s2) =
                      (if d = CHR ''0'' then ([d], r)
                       else (takeWhile isDigit s1, dropWhile isDigit s1))
                in case parse_frac s2 of
                     None \<Rightarrow> None
                   | Some (fp, s3) \<Rightarrow>
                       (case parse_exp s3 of
                          None \<Rightarrow> None
                        | Some (e, s4) \<Rightarrow>
                            (let m = of_nat (digits_val ip) + fp;
                                 a = (if 0 \<le> e then m * 10 ^ nat e else m / 10 ^ nat (- e))
                             in Some (if neg then - a else a, s4)))))"

fun parse_value :: "nat \<Rightarrow> string \<Rightarrow> (json \<times> string) presult"
  and parse_elements :: "nat \<Rightarrow> string \<Rightarrow> json list \<Rightarrow> (json \<times> string) presult"
  and parse_members :: "nat \<Rightarrow> string \<Rightarrow> (string \<times> json) list \<Rightarrow> (json \<times> string) presult"
where
  "parse_value 0 s = OutOfFuel"
| "parse_value (Suc n) s =
     (case s of
        [] \<Rightarrow> SyntaxError
      | c # r \<Rightarrow>
          if c = CHR ''{'' then
            (case skip_ws r of
               [] \<Rightarrow> SyntaxError
             | x # r' \<Rightarrow> if x = CHR ''}'' then Ok (JObj [], r') else parse_members n (x # r') [])
          else if c = CHR ''['' then
            (case skip_ws r of
               [] \<Rightarrow> SyntaxError
             | x # r' \<Rightarrow> if x = CHR '']'' then Ok (JArr [], r') else parse_elements n (x # r') [])
          else if c = CHR 0x22 then
            (case parse_chars r of
               None \<Rightarrow> SyntaxError
             | Some (str, rest) \<Rightarrow> Ok (JStr str, rest))
          else if prefix ''true'' s then Ok (JBool True, drop 4 s)
          else if prefix ''false'' s then Ok (JBool False, drop 5 s)
          else if prefix ''null'' s then Ok (JNull, drop 4 s)
          else
            (case parse_number s of
               None \<Rightarrow> SyntaxError
             | Some (x, rest) \<Rightarrow> Ok (JNum x, rest)))"
| "parse_elements 0 s acc = OutOfFuel"
| "parse_elements (Suc n) s acc =
     (case parse_value (Suc n) s of
        Ok (v, rest) \<Rightarrow>
          (case skip_ws rest of
             [] \<Rightarrow> SyntaxError
           | c # r \<Rightarrow>
               if c = CHR '','' then parse_elements n (skip_ws r) (acc @ [v])
               else if c = CHR '']'' then Ok (JArr (acc @ [v]), r)
               else SyntaxError)
      | SyntaxError \<Rightarrow> SyntaxError
      | OutOfFuel \<Rightarrow> OutOfFuel)"
| "parse_members 0 s acc = OutOfFuel"
| "parse_members (Suc n) s acc =
     (case s of
        [] \<Rightarrow> SyntaxError
      | c # r \<Rightarrow>
          if c \<noteq> CHR 0x22 then SyntaxError
          else
            (case parse_chars r of
               None \<Rightarrow> SyntaxError
             | Some (k, rest) \<Rightarrow>
                 (case skip_ws rest of
                    [] \<Rightarrow> SyntaxError
                  | x # r1 \<Rightarrow>
                      if x \<noteq> CHR '':'' then SyntaxError
                      else
                        (case parse_value (Suc n) (skip_ws r1) of
                           Ok (v, rest2) \<Rightarrow>
                             (case skip_ws rest2 of
                                [] \<Rightarrow> SyntaxError
                              | y # r2 \<Rightarrow>
                                  if y = CHR '','' then
                                    parse_members n (skip_ws r2) (AList.update k v acc)
                                  else if y = CHR ''}'' then Ok (JObj (AList.update k v acc), r2)
                                  else SyntaxError)
                         | SyntaxError \<Rightarrow> SyntaxError
                         | OutOfFuel \<Rightarrow> OutOfFuel))))"

definition JSON_parse :: "string \<Rightarrow> json option" where
  \<comment> \<open>\<open>None\<close> is the SyntaxError that \<^verbatim>\<open>JSON.parse\<close> throws\<close>
  "JSON_parse s =
     (case parse_value (Suc (length s)) (skip_ws s) of
        Ok (v, rest) \<Rightarrow> if skip_ws rest = [] then Some v else None
      | SyntaxError \<Rightarrow> None
      | OutOfFuel \<Rightarrow> None)"

section \<open>Regular expressions\<close>

text \<open>
  \<^verbatim>\<open>extractJson\<close> uses two regular expressions. They are modelled by a backtracking
  matcher: \<open>rmatch r st\<close> lists the states after every way \<open>r\<close> can match at \<open>st\<close>, in the
  order a backtracking engine tries them, so the first element is the match it reports.
  A state is the text of capture group 1 (if set) and the rest of the input. The quantifier
  \<^verbatim>\<open>*\<close> is only needed over a character class.
\<close>

datatype cclass = Space | AnyChar

fun in_class :: "cclass \<Rightarrow> char \<Rightarrow> bool" where
  "in_class Space c = isWhiteSpace c"
| "in_class AnyChar c = True"

datatype regex =
    Lit string
  | Opt regex
  | Star cclass
  | LazyStar cclass
  | Seq regex regex
  | Group regex

type_synonym mstate = "string option \<times> string"

fun star_greedy :: "cclass \<Rightarrow> string \<Rightarrow> string list" where
  "star_greedy k [] = [[]]"
| "star_greedy k (x # xs) = (if in_class k x then star_greedy k xs else []) @ [x # xs]"

fun star_lazy :: "cclass \<Rightarrow> string \<Rightarrow> string list" where
  "star_lazy k [] = [[]]"
| "star_lazy k (x # xs) = (x # xs) # (if in_class k x then star_lazy k xs else [])"

fun rmatch :: "regex \<Rightarrow> mstate \<Rightarrow> mstate list" where
  "rmatch (Lit l) (g, s) = (if prefix l s then [(g, drop (length l) s)] else [])"
| "rmatch (Opt r) st = rmatch r st @ [st]"
| "rmatch (Star k) (g, s) = map (Pair g) (star_greedy k s)"
| "rmatch (LazyStar k) (g, s) = map (Pair g) (star_lazy k s)"
| "rmatch (Seq r1 r2) st = concat (map (rmatch r2) (rmatch r1 st))"
| "rmatch (Group r) (g, s) =
     map (\<lambda>(g', s'). (Some (take (length s - length s') s), s')) (rmatch r (g, s))"

fun regex_match :: "regex \<Rightarrow> string \<Rightarrow> string option option" where
  \<comment> \<open>\<^verbatim>\<open>s.match(r)\<close> without the g flag: the leftmost match; \<open>None\<close> is \<^verbatim>\<open>null\<close>,
      otherwise the result is capture group 1\<close>
  "regex_match r [] = (case rmatch r (None, []) of [] \<Rightarrow> None | m # alts \<Rightarrow> Some (fst m))"
| "regex_match r (x # xs) =
     (case rmatch r (None, x # xs) of [] \<Rightarrow> regex_match r xs | m # alts \<Rightarrow> Some (fst m))"

definition codeBlock_regex :: regex where
  \<comment> \<open>\<^verbatim>\<open>/```(?:json)?\s*(\{[\s\S]*?\})\s*```/\<close>\<close>
  "codeBlock_regex =
     Seq (Lit ''```'') (Seq (Opt (Lit ''json'')) (Seq (Star Space)
       (Seq (Group (Seq (Lit ''{'') (Seq (LazyStar AnyChar) (Lit ''}''))))
         (Seq (Star Space) (Lit ''```'')))))"

definition object_regex :: regex where
  \<comment> \<open>\<^verbatim>\<open>/(\{[\s\S]*\})/\<close>\<close>
  "object_regex = Group (Seq (Lit ''{'') (Seq (Star AnyChar) (Lit ''}'')))"

definition group1 :: "string option \<Rightarrow> string" where
  \<comment> \<open>\<^verbatim>\<open>m[1]\<close>; group 1 takes part in every match of the two expressions above\<close>
  "group1 m = (case m of Some g \<Rightarrow> g | None \<Rightarrow> [])"

definition extractJson :: "string \<Rightarrow> string" where
  "extractJson text =
     (let trimmed = trim text
      in case regex_match codeBlock_regex trimmed of
           Some codeBlockMatch \<Rightarrow> group1 codeBlockMatch
         | None \<Rightarrow>
             (case regex_match object_regex trimmed of
                Some objectMatch \<Rightarrow> group1 objectMatch
              | None \<Rightarrow> trimmed))"

section \<open>The response normalizer\<close>

datatype error =
    ParseError  \<comment> \<open>\<^verbatim>\<open>Error("Failed to parse LLM response as JSON")\<close>\<close>
  | TypeError   \<comment> \<open>the TypeError of the runtime: a property of \<^verbatim>\<open>null\<close>, a call of a non-function\<close>

record profile =
  technical :: "string list"
  non_technical :: "string list"
  personal_assessment :: "string list option"
  overall_levels :: "string list"

record score_entry =
  name :: string
  score :: "rat option"
  comment :: string

record report =
  candidate_name :: json
  technical_scores :: "score_entry list"
  non_technical_scores :: "score_entry list"
  personal_assessment_scores :: "score_entry list"
  overall_level :: json
  overall_comment :: json
  ai_evaluation :: string

definition get :: "json \<Rightarrow> string \<Rightarrow> json option" where
  \<comment> \<open>\<^verbatim>\<open>v[k]\<close> for a decoded value \<open>v\<close> other than \<^verbatim>\<open>null\<close> and a key that no prototype
      defines; \<open>None\<close> is \<^verbatim>\<open>undefined\<close>\<close>
  "get v k = (case v of JObj members \<Rightarrow> map_of members k | _ \<Rightarrow> None)"

fun truthy :: "json option \<Rightarrow> bool" where
  "truthy None = False"
| "truthy (Some JNull) = False"
| "truthy (Some (JBool b)) = b"
| "truthy (Some (JNum x)) = (x \<noteq> 0)"
| "truthy (Some (JStr s)) = (s \<noteq> [])"
| "truthy (Some (JArr xs)) = True"
| "truthy (Some (JObj members)) = True"

definition js_or :: "json option \<Rightarrow> json \<Rightarrow> json" where
  \<comment> \<open>\<^verbatim>\<open>a || b\<close>\<close>
  "js_or a b = (case a of Some v \<Rightarrow> if truthy a then v else b | None \<Rightarrow> b)"

definition placeholder :: string where
  "placeholder = ''Not evaluated/not enough data''"

definition parseScore :: "json option \<Rightarrow> rat option" where
  "parseScore val =
     (if val = None \<or> val = Some JNull then None
      else case val of
             Some (JNum x) \<Rightarrow> if x \<ge> 1 \<and> x \<le> 5 then Some x else None
           | _ \<Rightarrow> None)"

definition parseComment :: "json option \<Rightarrow> string" where
  "parseComment val = (case val of Some (JStr s) \<Rightarrow> s | _ \<Rightarrow> placeholder)"

definition name_matches :: "string \<Rightarrow> json \<Rightarrow> error + bool" where
  \<comment> \<open>the callback of \<^verbatim>\<open>find\<close>: \<^verbatim>\<open>(s) => matches(s.name || "", area)\<close>\<close>
  "name_matches area s =
     (case s of
        JNull \<Rightarrow> Inl TypeError
      | _ \<Rightarrow>
          (case js_or (get s ''name'') (JStr []) of
             JStr respName \<Rightarrow> Inr (matches respName area)
           | _ \<Rightarrow> Inl TypeError))"

fun find_entry :: "(json \<Rightarrow> error + bool) \<Rightarrow> json list \<Rightarrow> error + json option" where
  \<comment> \<open>\<^verbatim>\<open>Array.prototype.find\<close>, with a callback that may throw\<close>
  "find_entry p [] = Inr None"
| "find_entry p (x # xs) =
     (case p x of
        Inl e \<Rightarrow> Inl e
      | Inr b \<Rightarrow> if b then Inr (Some x) else find_entry p xs)"

definition score_for :: "json \<Rightarrow> string \<Rightarrow> error + score_entry" where
  \<comment> \<open>the callback of \<^verbatim>\<open>areas.map\<close> in \<^verbatim>\<open>parseScores\<close>; \<^verbatim>\<open>raw.find\<close> is a function
      only when \<open>raw\<close> is an array\<close>
  "score_for raw area =
     (case raw of
        JArr entries \<Rightarrow>
          (case find_entry (name_matches area) entries of
             Inl e \<Rightarrow> Inl e
           | Inr found \<Rightarrow>
               (case found of
                  Some f \<Rightarrow>
                    if truthy found then
                      Inr \<lparr>name = area, score = parseScore (get f ''score''),
                           comment = parseComment (get f ''comment'')\<rparr>
                    else Inr \<lparr>name = area, score = None, comment = placeholder\<rparr>
                | None \<Rightarrow> Inr \<lparr>name = area, score = None, comment = placeholder\<rparr>))
      | _ \<Rightarrow> Inl TypeError)"

fun map_err :: "('a \<Rightarrow> error + 'b) \<Rightarrow> 'a list \<Rightarrow> error + 'b list" where
  \<comment> \<open>\<^verbatim>\<open>Array.prototype.map\<close>, with a callback that may throw\<close>
  "map_err f [] = Inr []"
| "map_err f (x # xs) =
     (case f x of
        Inl e \<Rightarrow> Inl e
      | Inr y \<Rightarrow> (case map_err f xs of Inl e \<Rightarrow> Inl e | Inr ys \<Rightarrow> Inr (y # ys)))"

definition parseScores :: "string \<Rightarrow> string list \<Rightarrow> json \<Rightarrow> error + score_entry list" where
  "parseScores dataKey areas data =
     (case data of
        JNull \<Rightarrow> Inl TypeError
      | _ \<Rightarrow> map_err (score_for (js_or (get data dataKey) (JArr []))) areas)"

definition defaultLevel :: "profile \<Rightarrow> string" where
  \<comment> \<open>\<^verbatim>\<open>profile.overall_levels[0] || "Medior"\<close>\<close>
  "defaultLevel profile =
     (case overall_levels profile of
        [] \<Rightarrow> ''Medior''
      | l # ls \<Rightarrow> if l = [] then ''Medior'' else l)"

definition overallLevel :: "profile \<Rightarrow> json \<Rightarrow> json" where
  \<comment> \<open>lines 84 to 88 of \<^verbatim>\<open>parseResponse\<close>\<close>
  "overallLevel profile data =
     (let level = js_or (get data ''overall_level'') (JStr (defaultLevel profile))
      in if level \<notin> set (map JStr (overall_levels profile))
         then JStr (defaultLevel profile) else level)"

definition build_report :: "json \<Rightarrow> profile \<Rightarrow> string \<Rightarrow> error + report" where
  \<comment> \<open>lines 69 to 98 of \<^verbatim>\<open>parseResponse\<close>: what it does with the decoded \<open>data\<close>\<close>
  "build_report data profile candidateName =
     (case parseScores ''technical_scores'' (technical profile) data of
        Inl e \<Rightarrow> Inl e
      | Inr technicalScores \<Rightarrow>
     (case parseScores ''non_technical_scores'' (non_technical profile) data of
        Inl e \<Rightarrow> Inl e
      | Inr nonTechnicalScores \<Rightarrow>
     (case (case personal_assessment profile of
              Some (a # as) \<Rightarrow> parseScores ''personal_assessment_scores'' (a # as) data
            | _ \<Rightarrow> Inr []) of
        Inl e \<Rightarrow> Inl e
      | Inr personalAssessmentScores \<Rightarrow>
          Inr \<lparr>candidate_name = js_or (get data ''candidate_name'') (JStr candidateName),
               technical_scores = technicalScores,
               non_technical_scores = nonTechnicalScores,
               personal_assessment_scores = personalAssessmentScores,
               overall_level = overallLevel profile data,
               overall_comment =
                 js_or (get data ''overall_comment'') (JStr ''See interview notes for details.''),
               ai_evaluation = []\<rparr>)))"

definition parseResponse :: "string \<Rightarrow> profile \<Rightarrow> string \<Rightarrow> error + report" where
  "parseResponse content profile candidateName =
     (let jsonStr = extractJson content
      in case JSON_parse (if jsonStr = [] then ''{}'' else jsonStr) of
           None \<Rightarrow> Inl ParseError
         | Some data \<Rightarrow> build_report data profile candidateName)"

section \<open>The backend adapters and the orchestrator\<close>

text \<open>
  Only what the adapters do with the reply, and which adapter \<^verbatim>\<open>generateFeedback\<close>
  calls, is modelled; the model load and the HTTP request are not.
\<close>

definition opt_get :: "json option \<Rightarrow> string \<Rightarrow> json option" where
  \<comment> \<open>\<^verbatim>\<open>a?.k\<close>\<close>
  "opt_get a k = (case a of None \<Rightarrow> None | Some JNull \<Rightarrow> None | Some v \<Rightarrow> get v k)"

definition opt_first :: "json option \<Rightarrow> json option" where
  \<comment> \<open>\<^verbatim>\<open>a?.[0]\<close>\<close>
  "opt_first a =
     (case a of
        Some (JArr (x # xs)) \<Rightarrow> Some x
      | Some (JObj members) \<Rightarrow> map_of members ''0''
      | Some (JStr (c # cs)) \<Rightarrow> Some (JStr [c])
      | _ \<Rightarrow> None)"

definition reply_content :: "json \<Rightarrow> error + json" where
  \<comment> \<open>\<^verbatim>\<open>reply.choices?.[0]?.message?.content || ""\<close>\<close>
  "reply_content reply =
     (case reply of
        JNull \<Rightarrow> Inl TypeError
      | _ \<Rightarrow>
          Inr (js_or (opt_get (opt_get (opt_first (get reply ''choices'')) ''message'') ''content'')
                 (JStr [])))"

definition adapter_result :: "json \<Rightarrow> profile \<Rightarrow> string \<Rightarrow> error + report" where
  \<comment> \<open>the last two lines of \<^verbatim>\<open>generateWithWebLLM\<close> and of \<^verbatim>\<open>generateWithAPI\<close>;
      \<^verbatim>\<open>text.trim\<close> is a function only when the content is a string\<close>
  "adapter_result reply profile candidateName =
     (case reply_content reply of
        Inl e \<Rightarrow> Inl e
      | Inr content \<Rightarrow>
          (case content of
             JStr text \<Rightarrow> parseResponse text profile candidateName
           | _ \<Rightarrow> Inl TypeError))"

datatype adapter =
    WebLLM  \<comment> \<open>\<^verbatim>\<open>generateWithWebLLM\<close>, the in-browser model\<close>
  | API     \<comment> \<open>\<^verbatim>\<open>generateWithAPI\<close>, the remote HTTP API\<close>

record options =
  mode :: "json option"

definition generateFeedback :: "options \<Rightarrow> adapter" where
  \<comment> \<open>the adapter that \<^verbatim>\<open>generateFeedback\<close> hands the call to; \<open>None\<close> is an options
      object without \<^verbatim>\<open>mode\<close>, for which the destructuring default applies\<close>
  "generateFeedback opts =
     (let m = (case mode opts of None \<Rightarrow> JStr ''webllm'' | Some v \<Rightarrow> v)
      in if m = JStr ''api'' then API else WebLLM)"

section \<open>Reference definitions\<close>

text \<open>
  The three extraction patterns written as direct scans of the text, to compare with the
  regular expressions of \<^verbatim>\<open>extractJson\<close>.
\<close>

fun close_fence :: "string \<Rightarrow> string \<Rightarrow> string option" where
  \<comment> \<open>the object \<open>acc\<close> read so far, extended up to the first \<^verbatim>\<open>}\<close> that white space and a
      closing fence follow\<close>
  "close_fence acc [] = None"
| "close_fence acc (c # cs) =
     (if c = CHR ''}'' \<and> prefix ''```'' (dropWhile isWhiteSpace cs) then Some (acc @ [c])
      else close_fence (acc @ [c]) cs)"

definition fence_at :: "string \<Rightarrow> string option" where
  \<comment> \<open>a fenced block that starts right here: the fence, an optional \<^verbatim>\<open>json\<close> tag, white
      space, then the object\<close>
  "fence_at s =
     (if prefix ''```'' s then
        (let a = drop 3 s;
             b = (if prefix ''json'' a then drop 4 a else a)
         in case dropWhile isWhiteSpace b of
              [] \<Rightarrow> None
            | c # cs \<Rightarrow> if c = CHR ''{'' then close_fence [c] cs else None)
      else None)"

fun fenced_object :: "string \<Rightarrow> string option" where
  "fenced_object [] = None"
| "fenced_object (x # xs) =
     (case fence_at (x # xs) of Some j \<Rightarrow> Some j | None \<Rightarrow> fenced_object xs)"

definition outer_span :: "string \<Rightarrow> string option" where
  \<comment> \<open>from the first \<^verbatim>\<open>{\<close> of the text to its last \<^verbatim>\<open>}\<close>\<close>
  "outer_span s =
     (let t = dropWhile (\<lambda>c. c \<noteq> CHR ''{'') s
      in if CHR ''}'' \<in> set t then Some (rev (dropWhile (\<lambda>c. c \<noteq> CHR ''}'') (rev t)))
         else None)"

text \<open>
  The second pattern as the specification words it, ``the first top-level \<^verbatim>\<open>{...}\<close> span'':
  from the first \<^verbatim>\<open>{\<close> to the \<^verbatim>\<open>}\<close> that closes it, counting nested braces.
\<close>

fun close_span :: "nat \<Rightarrow> string \<Rightarrow> string option" where
  "close_span d [] = None"
| "close_span d (c # cs) =
     (if c = CHR ''{'' then map_option (Cons c) (close_span (Suc d) cs)
      else if c = CHR ''}'' then
        (case d of 0 \<Rightarrow> Some [c] | Suc d' \<Rightarrow> map_option (Cons c) (close_span d' cs))
      else map_option (Cons c) (close_span d cs))"

definition first_top_level_span :: "string \<Rightarrow> string option" where
  "first_top_level_span s =
     (case dropWhile (\<lambda>c. c \<noteq> CHR ''{'') s of
        [] \<Rightarrow> None
      | c # cs \<Rightarrow> map_option (Cons c) (close_span 0 cs))"

definition spec_extractJson :: "string \<Rightarrow> string" where
  "spec_extractJson text =
     (case fenced_object (trim text) of
        Some j \<Rightarrow> j
      | None \<Rightarrow> (case first_top_level_span (trim text) of Some j \<Rightarrow> j | None \<Rightarrow> trim text))"

text \<open>
  The profile of the specification's end-to-end scenario, and the entry of an area that
  was not evaluated.
\<close>

definition example_profile :: profile where
  "example_profile =
     \<lparr>technical = [''A'', ''B''], non_technical = [''C''], personal_assessment = None,
      overall_levels = [''Junior'', ''Senior'']\<rparr>"

definition blank_level_profile :: profile where
  \<comment> \<open>the same profile with an empty string as its first level\<close>
  "blank_level_profile = example_profile\<lparr>overall_levels := ['''', ''Senior'']\<rparr>"

definition not_evaluated :: "string \<Rightarrow> score_entry" where
  "not_evaluated area = \<lparr>name = area, score = None, comment = placeholder\<rparr>"

section \<open>String lemmas\<close>

lemma lower_char_idem: "lower_char (lower_char c) = lower_char c"
  by (simp add: lower_char_def Let_def)

lemma isWhiteSpace_nat:
  "isWhiteSpace c \<longleftrightarrow> (of_char c :: nat) \<in> {9, 10, 11, 12, 13, 32, 160}"
proof -
  have eq: "\<And>d n. (of_char d :: nat) = n \<Longrightarrow> (c = d) = ((of_char c :: nat) = n)" by auto
  show ?thesis
    unfolding isWhiteSpace_def
    by (simp add: eq [of "CHR 0x09" 9] eq [of "CHR 0x0A" 10] eq [of "CHR 0x0B" 11]
        eq [of "CHR 0x0C" 12] eq [of "CHR 0x0D" 13] eq [of "CHR 0x20" 32] eq [of "CHR 0xA0" 160])
qed

lemma isWhiteSpace_lower: "isWhiteSpace (lower_char c) = isWhiteSpace c"
  by (auto simp add: lower_char_def Let_def isWhiteSpace_nat)

lemma toLowerCase_idem: "toLowerCase (toLowerCase s) = toLowerCase s"
  by (simp add: toLowerCase_def lower_char_idem)

lemma trim_idem: "trim (trim s) = trim s"
  unfolding trim_def
  by (metis (no_types, lifting) dropWhile_eq_self_iff hd_dropWhile hd_rev last_appendR
      rev_is_Nil_conv rev_swap takeWhile_dropWhile_id)

lemma toLowerCase_trim: "toLowerCase (trim s) = trim (toLowerCase s)"
  by (simp add: toLowerCase_def trim_def dropWhile_map rev_map comp_def isWhiteSpace_lower)

lemma norm_toLowerCase: "norm (toLowerCase s) = norm s"
  by (simp add: norm_def toLowerCase_idem)

lemma norm_trim: "norm (trim s) = norm s"
  by (simp add: norm_def toLowerCase_trim trim_idem)

text \<open>
  What the three string operations of the normal form do, stated without their recursion:
  a global replace leaves a text without the pattern as it is, and otherwise rewrites the
  leftmost occurrence and goes on behind it; \<^verbatim>\<open>trim\<close> drops the white space around a text
  and nothing else.
\<close>

lemma prefix_of_long: "prefix p (a @ b) \<Longrightarrow> length p \<le> length a \<Longrightarrow> prefix p a"
  by (metis prefix_append prefix_order.antisym prefix_order.refl prefixE append_eq_append_conv_if prefixI)

lemma replace_g_at_pattern:
  "pat \<noteq> [] \<Longrightarrow> replace_g pat rep (pat @ v) = rep @ replace_g pat rep v"
  by (cases pat) simp_all

lemma replace_g_no_occurrence: "\<not> sublist pat t \<Longrightarrow> replace_g pat rep t = t"
proof (induction t)
  case Nil
  then show ?case by simp
next
  case (Cons x xs)
  from Cons.prems have "\<not> prefix pat (x # xs)" and "\<not> sublist pat xs"
    by (auto simp add: sublist_Cons_right)
  with Cons.IH show ?case by simp
qed

lemma replace_g_leftmost:
  assumes "pat \<noteq> []" and "\<not> sublist pat (u @ butlast pat)"
  shows "replace_g pat rep (u @ pat @ v) = u @ rep @ replace_g pat rep v"
  using assms(2)
proof (induction u)
  case Nil
  show ?case using assms(1) by (simp add: replace_g_at_pattern)
next
  case (Cons x xs)
  from Cons.prems have np: "\<not> prefix pat ((x # xs) @ butlast pat)"
    and ns: "\<not> sublist pat (xs @ butlast pat)"
    by (auto simp add: sublist_Cons_right)
  have "\<not> prefix pat ((x # xs) @ pat @ v)"
  proof
    assume p: "prefix pat ((x # xs) @ pat @ v)"
    have "(x # xs) @ pat @ v = ((x # xs) @ butlast pat) @ (last pat # v)"
      using assms(1) by simp
    moreover have "length pat \<le> length ((x # xs) @ butlast pat)" by simp
    ultimately have "prefix pat ((x # xs) @ butlast pat)"
      using p prefix_of_long by metis
    with np show False by simp
  qed
  then show ?case using Cons.IH [OF ns] by simp
qed

lemma trim_surrounded:
  assumes "\<forall>c \<in> set l. isWhiteSpace c" and "\<forall>c \<in> set r. isWhiteSpace c"
  shows "trim (l @ s @ r) = trim s"
proof -
  have 1: "dropWhile isWhiteSpace (l @ s @ r) = dropWhile isWhiteSpace (s @ r)"
    using assms(1) by (simp add: dropWhile_append2)
  have "\<forall>c \<in> set (rev r). isWhiteSpace c" using assms(2) by simp
  then have 2: "dropWhile isWhiteSpace (rev r @ t) = dropWhile isWhiteSpace t" for t
    by (intro dropWhile_append2) blast
  show ?thesis
  proof (cases "\<forall>c \<in> set s. isWhiteSpace c")
    case True
    then have "dropWhile isWhiteSpace (s @ r) = []" using assms(2) by auto
    then have "trim (l @ s @ r) = []" by (simp only: trim_def 1) simp
    moreover have "dropWhile isWhiteSpace s = []" using True by auto
    then have "trim s = []" by (simp only: trim_def) simp
    ultimately show ?thesis by simp
  next
    case False
    then have "dropWhile isWhiteSpace (s @ r) = dropWhile isWhiteSpace s @ r"
      by (auto simp add: dropWhile_append1)
    then show ?thesis
      by (simp add: trim_def 1 2)
  qed
qed

lemma trim_fixed:
  assumes "s = [] \<or> (\<not> isWhiteSpace (hd s) \<and> \<not> isWhiteSpace (last s))"
  shows "trim s = s"
proof (cases s)
  case Nil
  then show ?thesis by (simp add: trim_def)
next
  case (Cons x xs)
  with assms have h: "\<not> isWhiteSpace x" and l: "\<not> isWhiteSpace (last s)" by auto
  have "dropWhile isWhiteSpace s = s" using h Cons by simp
  moreover have "dropWhile isWhiteSpace (rev s) = rev s"
    using l Cons by (metis dropWhile_eq_self_iff hd_rev list.distinct(1))
  ultimately show ?thesis by (simp add: trim_def)
qed

lemma lower_char_ascii:
  "(65 \<le> (of_char c :: nat) \<and> (of_char c :: nat) \<le> 90 \<longrightarrow>
      (of_char (lower_char c) :: nat) = of_char c + 32) \<and>
   ((of_char c :: nat) < 65 \<or> (90 < (of_char c :: nat) \<and> (of_char c :: nat) < 192) \<longrightarrow>
      lower_char c = c)"
  by (auto simp add: lower_char_def Let_def)

section \<open>The regular expressions of \<^verbatim>\<open>extractJson\<close> as scans\<close>

text \<open>
  The object expression: the greedy star makes the match run from the first \<^verbatim>\<open>{\<close> to
  the last \<^verbatim>\<open>}\<close>.
\<close>

lemma greedy_Nil: "rmatch (Seq (Star AnyChar) (Lit ''}'')) (g, []) = []"
  by simp

lemma greedy_Cons:
  "rmatch (Seq (Star AnyChar) (Lit ''}'')) (g, x # xs) =
     rmatch (Seq (Star AnyChar) (Lit ''}'')) (g, xs) @ (if x = CHR ''}'' then [(g, xs)] else [])"
  by simp

lemma greedy_none:
  "CHR ''}'' \<notin> set b \<Longrightarrow> rmatch (Seq (Star AnyChar) (Lit ''}'')) (g, b) = []"
  by (induction b) (auto simp del: rmatch.simps simp add: greedy_Nil greedy_Cons)

lemma greedy_first:
  "CHR ''}'' \<in> set b \<Longrightarrow>
   \<exists>ms. rmatch (Seq (Star AnyChar) (Lit ''}'')) (g, b) =
     (g, rev (takeWhile (\<lambda>c. c \<noteq> CHR ''}'') (rev b))) # ms"
proof (induction b)
  case Nil
  then show ?case by simp
next
  case (Cons x xs)
  show ?case
  proof (cases "CHR ''}'' \<in> set xs")
    case True
    then obtain ms where ms: "rmatch (Seq (Star AnyChar) (Lit ''}'')) (g, xs) =
      (g, rev (takeWhile (\<lambda>c. c \<noteq> CHR ''}'') (rev xs))) # ms"
      using Cons.IH by blast
    from True have "takeWhile (\<lambda>c. c \<noteq> CHR ''}'') (rev xs @ [x]) = takeWhile (\<lambda>c. c \<noteq> CHR ''}'') (rev xs)"
      by (intro takeWhile_append1 [where x = "CHR ''}''"]) auto
    then show ?thesis
      by (simp del: rmatch.simps add: greedy_Cons ms)
  next
    case False
    with Cons.prems have x: "x = CHR ''}''" by simp
    from False have "\<And>c. c \<in> set (rev xs) \<Longrightarrow> c \<noteq> CHR ''}''" by auto
    then have "takeWhile (\<lambda>c. c \<noteq> CHR ''}'') (rev xs @ [x]) = rev xs"
      by (subst takeWhile_append2) (simp_all add: x)
    then show ?thesis
      by (simp del: rmatch.simps add: greedy_Cons greedy_none [OF False] x)
  qed
qed

lemma take_to_last:
  "take (length t - length (takeWhile P (rev t))) t = rev (dropWhile P (rev t))"
proof -
  have "t = rev (dropWhile P (rev t)) @ rev (takeWhile P (rev t))"
    by (metis rev_append rev_rev_ident takeWhile_dropWhile_id)
  moreover have "length t - length (takeWhile P (rev t)) = length (rev (dropWhile P (rev t)))"
    by (metis add_diff_cancel_right' calculation length_append length_rev)
  ultimately show ?thesis
    by (metis append_eq_conv_conj)
qed

lemma object_at:
  "rmatch object_regex (g, s) =
     (case s of
        [] \<Rightarrow> []
      | c # b \<Rightarrow>
          if c = CHR ''{'' then
            map (\<lambda>(g', s'). (Some (take (length s - length s') s), s'))
              (rmatch (Seq (Star AnyChar) (Lit ''}'')) (g, b))
          else [])"
  by (cases s) (auto simp add: object_regex_def)

lemma object_at_none:
  "CHR ''}'' \<notin> set s \<Longrightarrow> rmatch object_regex (g, s) = []"
  by (cases s) (simp_all del: rmatch.simps add: object_at greedy_none)

lemma object_at_other:
  "c \<noteq> CHR ''{'' \<Longrightarrow> rmatch object_regex (g, c # b) = []"
  by (simp del: rmatch.simps add: object_at)

lemma object_at_first:
  assumes "CHR ''}'' \<in> set b"
  shows "\<exists>st ms. rmatch object_regex (g, CHR ''{'' # b) =
     (Some (rev (dropWhile (\<lambda>c. c \<noteq> CHR ''}'') (rev (CHR ''{'' # b)))), st) # ms"
proof -
  let ?P = "\<lambda>c. c \<noteq> CHR ''}''"
  let ?s = "CHR ''{'' # b"
  obtain ms where ms: "rmatch (Seq (Star AnyChar) (Lit ''}'')) (g, b) = (g, rev (takeWhile ?P (rev b))) # ms"
    using greedy_first [OF assms] by blast
  have tw: "takeWhile ?P (rev ?s) = takeWhile ?P (rev b)"
    using assms by (simp add: takeWhile_append1 [where x = "CHR ''}''"])
  have "take (length ?s - length (rev (takeWhile ?P (rev b)))) ?s = rev (dropWhile ?P (rev ?s))"
    using take_to_last [of ?s ?P] by (simp only: tw length_rev)
  then show ?thesis
    by (simp del: rmatch.simps add: object_at ms)
qed

lemma outer_span_none: "CHR ''}'' \<notin> set s \<Longrightarrow> outer_span s = None"
proof -
  assume a: "CHR ''}'' \<notin> set s"
  have "set (dropWhile (\<lambda>c. c \<noteq> CHR ''{'') s) \<subseteq> set s"
    by (simp add: set_dropWhileD subsetI)
  with a show ?thesis by (auto simp add: outer_span_def Let_def)
qed

lemma regex_match_object: "regex_match object_regex s = map_option Some (outer_span s)"
proof (induction s)
  case Nil
  then show ?case by (simp del: rmatch.simps add: object_at outer_span_def)
next
  case (Cons x xs)
  show ?case
  proof (cases "x = CHR ''{''")
    case False
    then show ?thesis
      using Cons.IH by (simp del: rmatch.simps add: object_at_other outer_span_def)
  next
    case x: True
    show ?thesis
    proof (cases "CHR ''}'' \<in> set xs")
      case True
      then obtain st ms where "rmatch object_regex (None, CHR ''{'' # xs) =
        (Some (rev (dropWhile (\<lambda>c. c \<noteq> CHR ''}'') (rev (CHR ''{'' # xs)))), st) # ms"
        using object_at_first by blast
      then show ?thesis
        using True by (simp del: rmatch.simps add: x outer_span_def)
    next
      case False
      then have "CHR ''}'' \<notin> set (x # xs)" by (simp add: x)
      then show ?thesis
        using Cons.IH False
        by (simp del: rmatch.simps add: object_at_none outer_span_none)
    qed
  qed
qed

text \<open>
  The code-block expression: white space is skipped as a whole, the tag is taken when it is
  there, and the lazy star stops at the first \<^verbatim>\<open>}\<close> that a closing fence follows.
\<close>

lemma skip_spaces:
  assumes "\<And>g x xs. isWhiteSpace x \<Longrightarrow> rmatch R (g, x # xs) = []"
  shows "rmatch (Seq (Star Space) R) (g, s) = rmatch R (g, dropWhile isWhiteSpace s)"
  by (induction s) (simp_all add: assms)

lemma fence_not_space: "isWhiteSpace x \<Longrightarrow> rmatch (Lit ''```'') (g, x # xs) = []"
  by (auto simp add: isWhiteSpace_def)

lemma closing_fence:
  "rmatch (Seq (Star Space) (Lit ''```'')) (g, s) =
     (if prefix ''```'' (dropWhile isWhiteSpace s)
      then [(g, drop 3 (dropWhile isWhiteSpace s))] else [])"
  by (simp only: skip_spaces [of "Lit ''```''", OF fence_not_space]) (simp add: eval_nat_numeral)

lemma lazy_Nil: "rmatch (Seq (LazyStar AnyChar) (Lit ''}'')) (g, []) = []"
  by simp

lemma lazy_Cons:
  "rmatch (Seq (LazyStar AnyChar) (Lit ''}'')) (g, x # xs) =
     (if x = CHR ''}'' then [(g, xs)] else []) @ rmatch (Seq (LazyStar AnyChar) (Lit ''}'')) (g, xs)"
  by simp

lemma close_fence_lazy:
  "(case concat (map (rmatch (Seq (Star Space) (Lit ''```'')))
            (map (\<lambda>(g', r). (Some (take (length (acc @ b) - length r) (acc @ b)), r))
               (rmatch (Seq (LazyStar AnyChar) (Lit ''}'')) (g, b)))) of
      [] \<Rightarrow> None
    | m # alts \<Rightarrow> Some (fst m)) = map_option Some (close_fence acc b)"
proof (induction b arbitrary: acc)
  case Nil
  then show ?case by (simp del: rmatch.simps add: lazy_Nil)
next
  case (Cons x xs)
  let ?T = "rmatch (Seq (Star Space) (Lit ''```''))"
  let ?L = "rmatch (Seq (LazyStar AnyChar) (Lit ''}''))"
  have eq: "map (\<lambda>(g', r). (Some (take (length (acc @ x # xs) - length r) (acc @ x # xs)), r))
              (?L (g, xs)) =
            map (\<lambda>(g', r). (Some (take (length ((acc @ [x]) @ xs) - length r) ((acc @ [x]) @ xs)), r))
              (?L (g, xs))"
    by simp
  have first: "take (length (acc @ x # xs) - length xs) (acc @ x # xs) = acc @ [x]"
    by simp
  define rest where "rest = concat (map ?T
        (map (\<lambda>(g', r). (Some (take (length ((acc @ [x]) @ xs) - length r) ((acc @ [x]) @ xs)), r))
           (?L (g, xs))))"
  have split: "concat (map ?T
        (map (\<lambda>(g', r). (Some (take (length (acc @ x # xs) - length r) (acc @ x # xs)), r))
           (?L (g, x # xs)))) =
      (if x = CHR ''}'' then ?T (Some (acc @ [x]), xs) else []) @ rest"
    unfolding lazy_Cons map_append concat_append eq rest_def
    using first by (simp del: rmatch.simps)
  have IH: "(case rest of [] \<Rightarrow> None | m # alts \<Rightarrow> Some (fst m)) =
      map_option Some (close_fence (acc @ [x]) xs)"
    unfolding rest_def by (rule Cons.IH)
  show ?case
    unfolding split using IH
    by (simp del: rmatch.simps add: closing_fence)
qed

lemma group_at:
  "rmatch (Group (Seq (Lit ''{'') (Seq (LazyStar AnyChar) (Lit ''}'')))) (g, s) =
     (case s of
        [] \<Rightarrow> []
      | c # b \<Rightarrow>
          if c = CHR ''{'' then
            map (\<lambda>(g', r). (Some (take (length ([c] @ b) - length r) ([c] @ b)), r))
              (rmatch (Seq (LazyStar AnyChar) (Lit ''}'')) (g, b))
          else [])"
  by (cases s) auto

lemma object_then_fence:
  "(case rmatch (Seq (Group (Seq (Lit ''{'') (Seq (LazyStar AnyChar) (Lit ''}''))))
                 (Seq (Star Space) (Lit ''```''))) (g, s) of
      [] \<Rightarrow> None
    | m # alts \<Rightarrow> Some (fst m)) =
   map_option Some
     (case s of [] \<Rightarrow> None | c # cs \<Rightarrow> if c = CHR ''{'' then close_fence [c] cs else None)"
proof (cases s)
  case Nil
  then show ?thesis by simp
next
  case (Cons c cs)
  show ?thesis
  proof (cases "c = CHR ''{''")
    case True
    have "rmatch (Seq (Group (Seq (Lit ''{'') (Seq (LazyStar AnyChar) (Lit ''}''))))
                 (Seq (Star Space) (Lit ''```''))) (g, c # cs) =
          concat (map (rmatch (Seq (Star Space) (Lit ''```'')))
            (map (\<lambda>(g', r). (Some (take (length ([c] @ cs) - length r) ([c] @ cs)), r))
               (rmatch (Seq (LazyStar AnyChar) (Lit ''}'')) (g, cs))))"
      by (simp only: rmatch.simps(5) group_at) (simp del: rmatch.simps add: True)
    then show ?thesis
      using close_fence_lazy [of "[c]" cs g] by (simp del: rmatch.simps add: Cons True)
  next
    case False
    then show ?thesis
      by (simp only: rmatch.simps(5) group_at) (simp add: Cons)
  qed
qed

lemma object_not_space:
  "isWhiteSpace x \<Longrightarrow>
   rmatch (Seq (Group (Seq (Lit ''{'') (Seq (LazyStar AnyChar) (Lit ''}''))))
             (Seq (Star Space) (Lit ''```''))) (g, x # xs) = []"
  by (simp only: rmatch.simps(5) group_at) (auto simp add: isWhiteSpace_def)

lemma object_not_json:
  "prefix ''json'' a \<Longrightarrow>
   rmatch (Seq (Star Space) (Seq (Group (Seq (Lit ''{'') (Seq (LazyStar AnyChar) (Lit ''}''))))
             (Seq (Star Space) (Lit ''```'')))) (g, a) = []"
  apply (simp only: skip_spaces [OF object_not_space])
  apply (cases a)
   apply simp
  apply (simp only: rmatch.simps(5) group_at)
  apply (auto simp add: isWhiteSpace_def)
  done

lemma codeBlock_at:
  "(case rmatch codeBlock_regex (None, s) of [] \<Rightarrow> None | m # alts \<Rightarrow> Some (fst m)) =
   map_option Some (fence_at s)"
proof (cases "prefix ''```'' s")
  case False
  then show ?thesis by (simp add: codeBlock_regex_def fence_at_def)
next
  case True
  let ?Z = "Seq (Group (Seq (Lit ''{'') (Seq (LazyStar AnyChar) (Lit ''}''))))
             (Seq (Star Space) (Lit ''```''))"
  let ?a = "drop 3 s"
  let ?b = "if prefix ''json'' ?a then drop 4 ?a else ?a"
  have fence: "rmatch (Lit ''```'') (None, s) = [(None, ?a)]"
    using True by (simp add: eval_nat_numeral)
  have tag: "rmatch (Lit ''json'') (None, ?a) =
     (if prefix ''json'' ?a then [(None, drop 4 ?a)] else [])"
    by (simp add: eval_nat_numeral)
  have 0: "rmatch codeBlock_regex (None, s) =
     rmatch (Seq (Opt (Lit ''json'')) (Seq (Star Space) ?Z)) (None, ?a)"
    unfolding codeBlock_regex_def
    by (simp only: rmatch.simps(5) [of "Lit ''```''"] fence) (simp del: rmatch.simps)
  have 1: "rmatch codeBlock_regex (None, s) =
     (if prefix ''json'' ?a then rmatch (Seq (Star Space) ?Z) (None, drop 4 ?a) else [])
     @ rmatch (Seq (Star Space) ?Z) (None, ?a)"
    unfolding 0
    by (simp only: rmatch.simps(5) [of "Opt (Lit ''json'')"] rmatch.simps(2) tag)
       (simp del: rmatch.simps)
  have 2: "rmatch codeBlock_regex (None, s) = rmatch (Seq (Star Space) ?Z) (None, ?b)"
    unfolding 1 by (simp del: rmatch.simps add: object_not_json)
  have 3: "rmatch codeBlock_regex (None, s) = rmatch ?Z (None, dropWhile isWhiteSpace ?b)"
    unfolding 2 by (rule skip_spaces [OF object_not_space])
  show ?thesis
    unfolding 3 object_then_fence using True by (simp add: fence_at_def Let_def)
qed

lemma regex_match_codeBlock:
  "regex_match codeBlock_regex s = map_option Some (fenced_object s)"
proof (induction s)
  case Nil
  show ?case using codeBlock_at [of "[]"] by (simp del: rmatch.simps add: fence_at_def)
next
  case (Cons x xs)
  show ?case
    using codeBlock_at [of "x # xs"] Cons.IH
    by (cases "rmatch codeBlock_regex (None, x # xs)"; cases "fence_at (x # xs)")
       (simp_all del: rmatch.simps)
qed

lemma group1_defined:
  "regex_match codeBlock_regex s \<noteq> Some None \<and> regex_match object_regex s \<noteq> Some None"
  by (cases "fenced_object s"; cases "outer_span s")
     (simp_all add: regex_match_codeBlock regex_match_object)

text \<open>Both expressions as scans, and what follows for a text without an opening brace.\<close>

lemma extractJson_scan:
  "extractJson text =
     (case fenced_object (trim text) of
        Some j \<Rightarrow> j
      | None \<Rightarrow> (case outer_span (trim text) of Some j \<Rightarrow> j | None \<Rightarrow> trim text))"
  by (simp add: extractJson_def Let_def regex_match_codeBlock regex_match_object group1_def
      split: option.splits)

lemma fence_at_open: "fence_at s = Some j \<Longrightarrow> CHR ''{'' \<in> set s"
proof -
  assume a: "fence_at s = Some j"
  let ?a = "drop 3 s"
  let ?b = "if prefix ''json'' ?a then drop 4 ?a else ?a"
  from a obtain cs where "dropWhile isWhiteSpace ?b = CHR ''{'' # cs"
    by (auto simp add: fence_at_def Let_def split: if_splits list.splits)
  then have "CHR ''{'' \<in> set (dropWhile isWhiteSpace ?b)" by simp
  then have "CHR ''{'' \<in> set ?b" by (rule set_dropWhileD)
  then have "CHR ''{'' \<in> set ?a"
    by (cases "prefix ''json'' ?a") (auto dest: in_set_dropD simp del: drop_drop)
  then show ?thesis by (rule in_set_dropD)
qed

lemma fenced_object_open: "CHR ''{'' \<notin> set s \<Longrightarrow> fenced_object s = None"
proof (induction s)
  case Nil
  then show ?case by simp
next
  case (Cons x xs)
  then have "fence_at (x # xs) = None"
    using fence_at_open [of "x # xs"] by (cases "fence_at (x # xs)") auto
  with Cons show ?case by simp
qed

lemma outer_span_open: "CHR ''{'' \<notin> set s \<Longrightarrow> outer_span s = None"
proof -
  assume "CHR ''{'' \<notin> set s"
  then have "dropWhile (\<lambda>c. c \<noteq> CHR ''{'') s = []" by auto
  then show ?thesis unfolding outer_span_def by (simp only: Let_def) simp
qed

lemma set_trim: "set (trim s) \<subseteq> set s"
  unfolding trim_def
  by (metis (no_types, lifting) set_dropWhileD set_rev subsetI)

lemma extractJson_no_open: "CHR ''{'' \<notin> set text \<Longrightarrow> extractJson text = trim text"
proof -
  assume "CHR ''{'' \<notin> set text"
  then have "CHR ''{'' \<notin> set (trim text)" using set_trim by blast
  then show ?thesis
    by (simp add: extractJson_scan fenced_object_open outer_span_open)
qed

section \<open>Lemmas on the normalizer\<close>

lemma map_err_Inr:
  "map_err f xs = Inr ys \<Longrightarrow> list_all2 (\<lambda>x y. f x = Inr y) xs ys"
  by (induction xs arbitrary: ys) (auto split: sum.splits)

lemma map_err_total: "(\<And>x. x \<in> set xs \<Longrightarrow> f x = Inr (h x)) \<Longrightarrow> map_err f xs = Inr (map h xs)"
  by (induction xs) auto

lemma map_err_error: "map_err f xs = Inl e \<Longrightarrow> \<exists>x \<in> set xs. f x = Inl e"
  by (induction xs) (auto split: sum.splits)

lemma parseScore_bounds: "parseScore val = Some x \<Longrightarrow> 1 \<le> x \<and> x \<le> 5"
  by (auto simp add: parseScore_def split: option.splits json.splits if_splits)

lemma find_entry_error: "find_entry (name_matches area) entries = Inl e \<Longrightarrow> e = TypeError"
  by (induction entries) (auto simp add: name_matches_def split: sum.splits if_splits json.splits)

lemma parseScore_cases:
  "parseScore val = None \<or> (\<exists>x. parseScore val = Some x \<and> 1 \<le> x \<and> x \<le> 5)"
  by (cases "parseScore val") (auto dest: parseScore_bounds)

lemma score_for_Inr:
  assumes "score_for raw area = Inr entry"
  shows "name entry = area \<and>
         (score entry = None \<or> (\<exists>x. score entry = Some x \<and> 1 \<le> x \<and> x \<le> 5))"
proof -
  from assms have "name entry = area \<and> (score entry = None \<or> (\<exists>v. score entry = parseScore v))"
    by (auto simp add: score_for_def split: json.splits sum.splits option.splits if_splits)
  then show ?thesis using parseScore_cases by metis
qed

lemma score_for_error: "score_for raw area = Inl e \<Longrightarrow> e = TypeError"
  by (auto simp add: score_for_def split: json.splits sum.splits option.splits if_splits
      dest: find_entry_error)

lemma score_for_empty: "score_for (JArr []) area = Inr (not_evaluated area)"
  unfolding not_evaluated_def by (simp add: score_for_def)

lemma list_all2_rightD: "list_all2 P xs ys \<Longrightarrow> y \<in> set ys \<Longrightarrow> \<exists>x \<in> set xs. P x y"
  by (induction rule: list_all2_induct) auto

lemma parseScores_map_err:
  "parseScores dataKey areas data = Inr entries \<Longrightarrow>
   map_err (score_for (js_or (get data dataKey) (JArr []))) areas = Inr entries"
  by (cases data) (simp_all add: parseScores_def)

lemma parseScores_all2:
  assumes "parseScores dataKey areas data = Inr entries"
  shows "list_all2 (\<lambda>area entry. score_for (js_or (get data dataKey) (JArr [])) area = Inr entry)
           areas entries"
  using assms by (intro map_err_Inr parseScores_map_err)

lemma names_of_all2:
  "list_all2 (\<lambda>area entry. name entry = area) areas entries \<Longrightarrow> map name entries = areas"
  by (induction rule: list_all2_induct) simp_all

lemma parseScores_names:
  assumes "parseScores dataKey areas data = Inr entries"
  shows "map name entries = areas"
proof -
  have "list_all2 (\<lambda>area entry. name entry = area) areas entries"
    using parseScores_all2 [OF assms] by (rule list_all2_mono) (simp add: score_for_Inr)
  then show ?thesis by (rule names_of_all2)
qed

lemma parseScores_scores:
  assumes "parseScores dataKey areas data = Inr entries" and "entry \<in> set entries"
  shows "score entry = None \<or> (\<exists>x. score entry = Some x \<and> 1 \<le> x \<and> x \<le> 5)"
proof -
  obtain area where "score_for (js_or (get data dataKey) (JArr [])) area = Inr entry"
    using list_all2_rightD [OF parseScores_all2 [OF assms(1)] assms(2)] by blast
  then show ?thesis by (simp add: score_for_Inr)
qed

lemma parseScores_error: "parseScores dataKey areas data = Inl e \<Longrightarrow> e = TypeError"
  by (cases data) (auto simp add: parseScores_def dest!: map_err_error dest: score_for_error)

lemma parseScores_absent:
  "data \<noteq> JNull \<Longrightarrow> \<not> truthy (get data dataKey) \<Longrightarrow>
   parseScores dataKey areas data = Inr (map not_evaluated areas)"
  by (cases data)
     (auto simp add: parseScores_def js_or_def score_for_empty map_err_total split: option.splits)

lemma build_report_error: "build_report data profile candidateName = Inl e \<Longrightarrow> e = TypeError"
  by (auto simp add: build_report_def split: sum.splits option.splits list.splits
      dest: parseScores_error)

lemma JSON_parse_empty_object: "JSON_parse ''{}'' = Some (JObj [])"
  by code_simp

lemma defaultLevel_eq:
  "defaultLevel P =
     (if overall_levels P = [] \<or> hd (overall_levels P) = [] then ''Medior''
      else hd (overall_levels P))"
  by (cases "overall_levels P") (simp_all add: defaultLevel_def)

lemma build_report_Inr:
  assumes "build_report data P c = Inr r"
  shows "parseScores ''technical_scores'' (technical P) data = Inr (technical_scores r)"
    and "parseScores ''non_technical_scores'' (non_technical P) data = Inr (non_technical_scores r)"
    and "personal_assessment_scores r = [] \<or>
         (\<exists>areas. parseScores ''personal_assessment_scores'' areas data =
            Inr (personal_assessment_scores r))"
    and "overall_level r = overallLevel P data"
    and "candidate_name r = js_or (get data ''candidate_name'') (JStr c)"
    and "overall_comment r =
           js_or (get data ''overall_comment'') (JStr ''See interview notes for details.'')"
  using assms
  by (auto simp add: build_report_def split: sum.splits option.splits list.splits)

lemma parseResponse_Inr:
  "parseResponse content P c = Inr r \<Longrightarrow> \<exists>data. build_report data P c = Inr r"
  by (auto simp add: parseResponse_def Let_def split: option.splits)

lemma overallLevel_cases:
  assumes "overall_levels P \<noteq> []" and "[] \<notin> set (overall_levels P)"
  shows "overallLevel P data =
     (case get data ''overall_level'' of
        Some (JStr l) \<Rightarrow> if l \<in> set (overall_levels P) then JStr l else JStr (hd (overall_levels P))
      | _ \<Rightarrow> JStr (hd (overall_levels P)))"
proof -
  obtain l0 ls where ls: "overall_levels P = l0 # ls" using assms(1) by (cases "overall_levels P") auto
  with assms(2) have l0: "l0 \<noteq> []" by auto
  have d: "defaultLevel P = l0" by (simp add: defaultLevel_def ls l0)
  show ?thesis
  proof (cases "get data ''overall_level''")
    case None
    then show ?thesis by (simp add: overallLevel_def js_or_def d ls Let_def)
  next
    case (Some v)
    then show ?thesis
      using assms(2) by (cases v) (auto simp add: overallLevel_def js_or_def d ls Let_def)
  qed
qed

lemma parseResponse_ParseError:
  "parseResponse content P c = Inl ParseError \<longleftrightarrow>
   JSON_parse (if extractJson content = [] then ''{}'' else extractJson content) = None"
  by (auto simp add: parseResponse_def Let_def split: option.splits dest: build_report_error)

section \<open>Lemmas on the parser\<close>

lemma trim_head: "trim s = x # xs \<Longrightarrow> \<not> isWhiteSpace x"
proof -
  assume a: "trim s = x # xs"
  let ?t = "dropWhile isWhiteSpace s"
  have "trim s = rev (dropWhile isWhiteSpace (rev ?t))" by (simp add: trim_def)
  then have "rev (x # xs) = dropWhile isWhiteSpace (rev ?t)" using a by (metis rev_rev_ident)
  then have "rev ?t \<noteq> []" by (metis Nil_is_rev_conv dropWhile.simps(1) list.distinct(1))
  then have "?t \<noteq> []" by simp
  then have h: "\<not> isWhiteSpace (hd ?t)" by (rule hd_dropWhile)
  have "\<exists>ys. ?t = trim s @ ys"
    unfolding trim_def by (metis rev_append rev_rev_ident takeWhile_dropWhile_id)
  then have "hd ?t = x" using a by auto
  with h show ?thesis by simp
qed

lemma isJsonWs_isWhiteSpace: "isJsonWs c \<Longrightarrow> isWhiteSpace c"
  by (auto simp add: isJsonWs_def isWhiteSpace_def)

lemma isDigit_chars: "isDigit c \<Longrightarrow> c \<in> set ''0123456789''"
proof -
  assume "isDigit c"
  then have "48 \<le> (of_char c :: nat) \<and> (of_char c :: nat) \<le> 57"
    unfolding isDigit_def by simp
  then have n: "(of_char c :: nat) \<in> {48, 49, 50, 51, 52, 53, 54, 55, 56, 57}"
    by (simp only: insert_iff empty_iff) arith
  have eq: "\<And>d n. (of_char d :: nat) = n \<Longrightarrow> (c = d) = ((of_char c :: nat) = n)" by auto
  show ?thesis
    using n
    by (simp add: eq [of "CHR ''0''" 48] eq [of "CHR ''1''" 49] eq [of "CHR ''2''" 50]
        eq [of "CHR ''3''" 51] eq [of "CHR ''4''" 52] eq [of "CHR ''5''" 53]
        eq [of "CHR ''6''" 54] eq [of "CHR ''7''" 55] eq [of "CHR ''8''" 56]
        eq [of "CHR ''9''" 57])
qed

lemma parse_number_start:
  "x \<noteq> CHR ''-'' \<Longrightarrow> \<not> isDigit x \<Longrightarrow> parse_number (x # xs) = None"
  by (simp add: parse_number_def)

lemma JSON_parse_not_value:
  assumes "\<not> isJsonWs x" and "x \<notin> set (CHR 0x22 # ''{[-0123456789tfn'')"
  shows "JSON_parse (x # xs) = None"
proof -
  have d: "\<not> isDigit x" using assms(2) isDigit_chars [of x] by auto
  have n: "parse_number (x # xs) = None"
    using assms(2) d by (intro parse_number_start) auto
  have "parse_value (Suc (length (x # xs))) (x # xs) = SyntaxError"
    using assms(2) by (auto simp add: n)
  then show ?thesis
    using assms(1) by (simp add: JSON_parse_def skip_ws_def)
qed

text \<open>
  The fuel of the parser never runs out: every step that uses fuel without reading a
  character is followed by one that reads, so \<open>None\<close> from \<open>JSON_parse\<close> is a syntax error.
\<close>

lemma skip_ws_le: "length (skip_ws s) \<le> length s"
  by (simp add: skip_ws_def length_dropWhile_le)

lemma skip_ws_Cons: "skip_ws s = c # r \<Longrightarrow> length r < length s"
  using skip_ws_le [of s] by simp

lemma parse_chars_shorter: "parse_chars s = Some (str, rest) \<Longrightarrow> length rest < length s"
proof (induction s arbitrary: str rest rule: parse_chars.induct)
  case 1
  then show ?case by simp
next
  case (2 c cs)
  show ?case
  proof (cases "c = CHR 0x22")
    case True
    with 2 show ?thesis by simp
  next
    case notq: False
    show ?thesis
    proof (cases "c = CHR 0x5C")
      case False
      with notq 2 show ?thesis
        by (auto split: if_splits)
    next
      case True
      with notq 2 show ?thesis
        by (auto split: if_splits list.splits option.splits; force)
    qed
  qed
qed

lemma parse_frac_le: "parse_frac s = Some (f, rest) \<Longrightarrow> length rest \<le> length s"
  by (auto simp add: parse_frac_def Let_def split: list.splits if_splits
      intro: le_trans [OF length_dropWhile_le])

lemma parse_exp_le: "parse_exp s = Some (e, rest) \<Longrightarrow> length rest \<le> length s"
  by (auto simp add: parse_exp_def Let_def split: list.splits if_splits prod.splits
      intro: le_trans [OF length_dropWhile_le])

lemma parse_number_shorter: "parse_number s = Some (x, rest) \<Longrightarrow> length rest < length s"
proof -
  assume a: "parse_number s = Some (x, rest)"
  obtain neg s1 where n: "(case s of [] \<Rightarrow> (False, s) | c # r \<Rightarrow> if c = CHR ''-'' then (True, r) else (False, s)) = (neg, s1)"
    by fastforce
  then have s1: "length s1 \<le> length s" by (auto split: list.splits if_splits)
  from a n obtain d r where d: "s1 = d # r" "isDigit d"
    by (auto simp add: parse_number_def split: list.splits if_splits)
  obtain ip s2 where i: "(if d = CHR ''0'' then ([d], r) else (takeWhile isDigit s1, dropWhile isDigit s1)) = (ip, s2)"
    by fastforce
  have s2: "length s2 < length s1"
    using i d by (auto simp add: length_dropWhile_le less_Suc_eq_le split: if_splits)
  from a n d i obtain fp s3 e where f: "parse_frac s2 = Some (fp, s3)" and e: "parse_exp s3 = Some (e, rest)"
    by (auto simp add: parse_number_def Let_def split: option.splits if_splits)
  show ?thesis
    using parse_frac_le [OF f] parse_exp_le [OF e] s1 s2 by simp
qed

lemma parse_value_shorter_step:
  assumes e: "\<And>s es v rest. parse_elements n s es = Ok (v, rest) \<Longrightarrow> length rest < length s"
    and m: "\<And>s ms v rest. parse_members n s ms = Ok (v, rest) \<Longrightarrow> length rest < length s"
    and a: "parse_value (Suc n) s = Ok (v, rest)"
  shows "length rest < length s"
proof (cases s)
  case Nil
  with a show ?thesis by simp
next
  case (Cons c r)
  consider (obj) "c = CHR ''{''" | (arr) "c \<noteq> CHR ''{''" "c = CHR ''[''"
    | (str) "c \<noteq> CHR ''{''" "c \<noteq> CHR ''[''" "c = CHR 0x22"
    | (other) "c \<noteq> CHR ''{''" "c \<noteq> CHR ''[''" "c \<noteq> CHR 0x22"
    by blast
  then show ?thesis
  proof cases
    case obj
    with a Cons obtain x r' where w: "skip_ws r = x # r'"
      by (cases "skip_ws r") auto
    show ?thesis
    proof (cases "x = CHR ''}''")
      case True
      with a Cons obj w have "rest = r'" by simp
      with skip_ws_Cons [OF w] Cons show ?thesis by simp
    next
      case False
      with a Cons obj w have "parse_members n (x # r') [] = Ok (v, rest)" by simp
      from m [OF this] skip_ws_le [of r] w Cons show ?thesis by simp
    qed
  next
    case arr
    with a Cons obtain x r' where w: "skip_ws r = x # r'"
      by (cases "skip_ws r") auto
    show ?thesis
    proof (cases "x = CHR '']''")
      case True
      with a Cons arr w have "rest = r'" by simp
      with skip_ws_Cons [OF w] Cons show ?thesis by simp
    next
      case False
      with a Cons arr w have "parse_elements n (x # r') [] = Ok (v, rest)" by simp
      from e [OF this] skip_ws_le [of r] w Cons show ?thesis by simp
    qed
  next
    case str
    with a Cons obtain str' where "parse_chars r = Some (str', rest)"
      by (auto split: option.splits)
    from parse_chars_shorter [OF this] Cons show ?thesis by simp
  next
    case other
    show ?thesis
    proof (cases "prefix ''true'' s \<or> prefix ''false'' s \<or> prefix ''null'' s")
      case True
      with a Cons other have "rest = drop 4 s \<or> rest = drop 5 s"
        by (auto split: if_splits)
      with Cons show ?thesis by auto
    next
      case False
      with a Cons other obtain x where "parse_number s = Some (x, rest)"
        by (auto split: option.splits)
      then show ?thesis by (rule parse_number_shorter)
    qed
  qed
qed

lemma parse_elements_shorter_step:
  assumes p: "\<And>s v rest. parse_value (Suc n) s = Ok (v, rest) \<Longrightarrow> length rest < length s"
    and e: "\<And>s es v rest. parse_elements n s es = Ok (v, rest) \<Longrightarrow> length rest < length s"
    and a: "parse_elements (Suc n) s es = Ok (v, rest)"
  shows "length rest < length s"
proof -
  from a obtain v1 rest1 where v: "parse_value (Suc n) s = Ok (v1, rest1)"
    by (auto split: presult.splits)
  with a obtain c r where w: "skip_ws rest1 = c # r"
    by (cases "skip_ws rest1") auto
  have r: "length r < length s"
    using p [OF v] skip_ws_Cons [OF w] by simp
  show ?thesis
  proof (cases "c = CHR '',''")
    case True
    with a v w have "parse_elements n (skip_ws r) (es @ [v1]) = Ok (v, rest)" by simp
    from e [OF this] skip_ws_le [of r] r show ?thesis by simp
  next
    case False
    with a v w have "rest = r" by (auto split: if_splits)
    with r show ?thesis by simp
  qed
qed

lemma parse_members_shorter_step:
  assumes p: "\<And>s v rest. parse_value (Suc n) s = Ok (v, rest) \<Longrightarrow> length rest < length s"
    and m: "\<And>s ms v rest. parse_members n s ms = Ok (v, rest) \<Longrightarrow> length rest < length s"
    and a: "parse_members (Suc n) s ms = Ok (v, rest)"
  shows "length rest < length s"
proof -
  from a obtain r where s: "s = CHR 0x22 # r"
    by (cases s) (auto split: if_splits)
  with a obtain k rest1 where k: "parse_chars r = Some (k, rest1)"
    by (auto split: option.splits)
  with a s obtain r1 where w1: "skip_ws rest1 = CHR '':'' # r1"
    by (cases "skip_ws rest1") (auto split: if_splits)
  with a s k obtain v1 rest2 where v: "parse_value (Suc n) (skip_ws r1) = Ok (v1, rest2)"
    by (auto split: presult.splits)
  with a s k w1 obtain y r2 where w2: "skip_ws rest2 = y # r2"
    by (cases "skip_ws rest2") auto
  have "length r1 < length s"
    using parse_chars_shorter [OF k] skip_ws_Cons [OF w1] s by simp
  then have "length rest2 < length s"
    using p [OF v] skip_ws_le [of r1] by simp
  then have r2: "length r2 < length s"
    using skip_ws_Cons [OF w2] by simp
  show ?thesis
  proof (cases "y = CHR '',''")
    case True
    with a s k w1 v w2 have "parse_members n (skip_ws r2) (AList.update k v1 ms) = Ok (v, rest)"
      by simp
    from m [OF this] skip_ws_le [of r2] r2 show ?thesis by simp
  next
    case False
    with a s k w1 v w2 have "rest = r2" by (auto split: if_splits)
    with r2 show ?thesis by simp
  qed
qed

lemma parse_shorter_all:
  "(\<forall>s v rest. parse_value n s = Ok (v, rest) \<longrightarrow> length rest < length s) \<and>
   (\<forall>s es v rest. parse_elements n s es = Ok (v, rest) \<longrightarrow> length rest < length s) \<and>
   (\<forall>s ms v rest. parse_members n s ms = Ok (v, rest) \<longrightarrow> length rest < length s)"
proof (induction n)
  case 0
  show ?case by simp
next
  case (Suc n)
  from Suc.IH
  have e: "\<And>s es v rest. parse_elements n s es = Ok (v, rest) \<Longrightarrow> length rest < length s"
    and m: "\<And>s ms v rest. parse_members n s ms = Ok (v, rest) \<Longrightarrow> length rest < length s"
    by blast+
  have p: "length rest < length s" if "parse_value (Suc n) s = Ok (v, rest)" for s v rest
    by (rule parse_value_shorter_step [OF e m that])
  have "length rest < length s" if "parse_elements (Suc n) s es = Ok (v, rest)" for s es v rest
    by (rule parse_elements_shorter_step [OF p e that])
  moreover
  have "length rest < length s" if "parse_members (Suc n) s ms = Ok (v, rest)" for s ms v rest
    by (rule parse_members_shorter_step [OF p m that])
  ultimately show ?case using p by blast
qed

lemma parse_value_shorter: "parse_value n s = Ok (v, rest) \<Longrightarrow> length rest < length s"
  using parse_shorter_all by blast

lemma parse_fuel_all:
  "(\<forall>s. length s < n \<longrightarrow> parse_value n s \<noteq> OutOfFuel) \<and>
   (\<forall>s es. length s < n \<longrightarrow> parse_elements n s es \<noteq> OutOfFuel) \<and>
   (\<forall>s ms. length s < n \<longrightarrow> parse_members n s ms \<noteq> OutOfFuel)"
proof (induction n)
  case 0
  show ?case by simp
next
  case (Suc n)
  have e: "\<And>s es. length s < n \<Longrightarrow> parse_elements n s es \<noteq> OutOfFuel"
    and m: "\<And>s ms. length s < n \<Longrightarrow> parse_members n s ms \<noteq> OutOfFuel"
    using Suc.IH by blast+
  have p: "parse_value (Suc n) s \<noteq> OutOfFuel" if l: "length s < Suc n" for s
  proof (cases s)
    case Nil
    then show ?thesis by simp
  next
    case (Cons c r)
    have w: "length (x # r') < n" if "skip_ws r = x # r'" for x r'
      using skip_ws_le [of r] that l Cons by auto
    consider (obj) "c = CHR ''{''" | (arr) "c \<noteq> CHR ''{''" "c = CHR ''[''"
      | (other) "c \<noteq> CHR ''{''" "c \<noteq> CHR ''[''"
      by blast
    then show ?thesis
    proof cases
      case obj
      show ?thesis
      proof (cases "skip_ws r")
        case Nil
        then show ?thesis by (simp add: Cons obj)
      next
        case ws: (Cons x r')
        from m [OF w [OF ws]] show ?thesis by (simp add: Cons obj ws)
      qed
    next
      case arr
      show ?thesis
      proof (cases "skip_ws r")
        case Nil
        then show ?thesis by (simp add: Cons arr)
      next
        case ws: (Cons x r')
        from e [OF w [OF ws]] show ?thesis by (simp add: Cons arr ws)
      qed
    next
      case other
      then show ?thesis
        by (simp add: Cons split: option.splits)
    qed
  qed
  have "parse_elements (Suc n) s es \<noteq> OutOfFuel" if l: "length s < Suc n" for s es
  proof (cases "parse_value (Suc n) s")
    case (Ok x)
    obtain v rest where x: "x = (v, rest)" by (cases x)
    have "length rest < length s" using Ok x parse_value_shorter by blast
    then have "length (skip_ws r) < n" if "skip_ws rest = c # r" for c r
      using skip_ws_Cons [OF that] skip_ws_le [of r] l by simp
    then show ?thesis
      using e by (auto simp del: parse_value.simps simp add: Ok x split: list.splits)
  next
    case SyntaxError
    then show ?thesis by (simp del: parse_value.simps)
  next
    case OutOfFuel
    with p [OF l] show ?thesis by simp
  qed
  moreover have "parse_members (Suc n) s ms \<noteq> OutOfFuel" if l: "length s < Suc n" for s ms
  proof (cases s)
    case Nil
    then show ?thesis by simp
  next
    case (Cons c r)
    show ?thesis
    proof (cases "parse_chars r")
      case None
      then show ?thesis by (simp add: Cons)
    next
      case (Some a)
      obtain k rest1 where a: "a = (k, rest1)" by (cases a)
      have 1: "length rest1 < length r" using Some a parse_chars_shorter by blast
      show ?thesis
      proof (cases "skip_ws rest1")
        case Nil
        then show ?thesis by (simp add: Cons Some a)
      next
        case w1: (Cons x r1)
        have 2: "length (skip_ws r1) < Suc n"
          using skip_ws_Cons [OF w1] skip_ws_le [of r1] 1 l Cons by simp
        show ?thesis
        proof (cases "parse_value (Suc n) (skip_ws r1)")
          case (Ok y)
          obtain v rest2 where y: "y = (v, rest2)" by (cases y)
          have "length rest2 < length (skip_ws r1)" using Ok y parse_value_shorter by blast
          then have "length (skip_ws r2) < n" if "skip_ws rest2 = c' # r2" for c' r2
            using skip_ws_Cons [OF that] skip_ws_le [of r2] 2 by simp
          then show ?thesis
            using m
            by (auto simp del: parse_value.simps simp add: Cons Some a w1 Ok y split: list.splits)
        next
          case SyntaxError
          then show ?thesis by (simp del: parse_value.simps add: Cons Some a w1)
        next
          case OutOfFuel
          with p [OF 2] show ?thesis by simp
        qed
      qed
    qed
  qed
  ultimately show ?case using p by blast
qed

lemma JSON_parse_fuel: "parse_value (Suc (length s)) (skip_ws s) \<noteq> OutOfFuel"
  using parse_fuel_all [of "Suc (length s)"] skip_ws_le [of s] by (simp add: less_Suc_eq_le)

section \<open>Extraction and decoding\<close>

text \<open>
  Claim C6, as amended. On the trimmed text, extraction takes the first fenced block that
  holds an object (the fence, an optional \<^verbatim>\<open>json\<close> tag, white space, and the shortest
  \<^verbatim>\<open>{...}\<close> that white space and a closing fence follow); if there is none, the span from
  the first \<^verbatim>\<open>{\<close> to the last \<^verbatim>\<open>}\<close> of the text; if there is none either, the whole
  trimmed text. The one decode step applies to that candidate, with \<^verbatim>\<open>{}\<close> in place of an
  empty candidate.
\<close>

theorem extractJson_patterns:
  "extractJson text =
     (case fenced_object (trim text) of
        Some j \<Rightarrow> j
      | None \<Rightarrow> (case outer_span (trim text) of Some j \<Rightarrow> j | None \<Rightarrow> trim text)) \<and>
   parseResponse text P c =
     (case JSON_parse (if extractJson text = [] then ''{}'' else extractJson text) of
        None \<Rightarrow> Inl ParseError
      | Some data \<Rightarrow> build_report data P c)"
  by (simp add: extractJson_scan parseResponse_def Let_def)

theorem extractJson_patterns_witness:
  \<open>extractJson ''Here it is: ```json {"a": {"b": 1}} ``` and {more}'' = ''{"a": {"b": 1}}'' \<and>
   extractJson ''Result {"a": {"b": 1}} and {more} done'' = ''{"a": {"b": 1}} and {more}'' \<and>
   extractJson '' no object here '' = ''no object here''\<close>
proof -
  have 1: \<open>fenced_object (trim ''Here it is: ```json {"a": {"b": 1}} ``` and {more}'') =
            Some ''{"a": {"b": 1}}''\<close>
    by code_simp
  have 2: \<open>fenced_object (trim ''Result {"a": {"b": 1}} and {more} done'') = None \<and>
           outer_span (trim ''Result {"a": {"b": 1}} and {more} done'') =
             Some ''{"a": {"b": 1}} and {more}''\<close>
    by code_simp
  have 3: "fenced_object ''no object here'' = None \<and>
           outer_span ''no object here'' = None \<and>
           trim '' no object here '' = ''no object here''"
    by code_simp
  show ?thesis
    by (simp only: extractJson_patterns [THEN conjunct1] 1 2 3 option.case simp_thms)
qed

text \<open>
  As the claim words it, the second pattern is the first top-level \<^verbatim>\<open>{...}\<close> span. On a
  text with two objects the code takes the span over both, which does not decode.
\<close>

theorem greedy_span_counterexample:
  \<open>extractJson ''{"a":1} and {"b":2}'' = ''{"a":1} and {"b":2}'' \<and>
   spec_extractJson ''{"a":1} and {"b":2}'' = ''{"a":1}'' \<and>
   parseResponse ''{"a":1} and {"b":2}'' example_profile ''Bob'' = Inl ParseError\<close>
  by code_simp

text \<open>
  Claim C2, as amended. For a text without \<^verbatim>\<open>{\<close> and \<^verbatim>\<open>}\<close> the candidate is the trimmed
  text, and the normalizer raises the parse error exactly when the trimmed text is not empty
  and is no JSON text; so it does whenever the trimmed text starts with a character that no
  JSON value starts with.
\<close>

theorem no_braces_ParseError:
  assumes "CHR ''{'' \<notin> set content" and "CHR ''}'' \<notin> set content"
  shows "extractJson content = trim content \<and>
         (parseResponse content P c = Inl ParseError \<longleftrightarrow>
            trim content \<noteq> [] \<and> JSON_parse (trim content) = None) \<and>
         (trim content = x # xs \<and> x \<notin> set (CHR 0x22 # ''[-0123456789tfn'') \<longrightarrow>
            parseResponse content P c = Inl ParseError)"
proof -
  have e: "extractJson content = trim content"
    using assms(1) by (rule extractJson_no_open)
  have i: "parseResponse content P c = Inl ParseError \<longleftrightarrow>
            trim content \<noteq> [] \<and> JSON_parse (trim content) = None"
    by (simp add: parseResponse_ParseError e JSON_parse_empty_object)
  have "parseResponse content P c = Inl ParseError"
    if t: "trim content = x # xs" and x: "x \<notin> set (CHR 0x22 # ''[-0123456789tfn'')"
  proof -
    have "x \<in> set content" using set_trim [of content] t by auto
    with assms(1) have "x \<noteq> CHR ''{''" by auto
    with x have "x \<notin> set (CHR 0x22 # ''{[-0123456789tfn'')" by simp
    moreover have "\<not> isJsonWs x" using trim_head [OF t] isJsonWs_isWhiteSpace by blast
    ultimately have "JSON_parse (x # xs) = None" by (rule JSON_parse_not_value [rotated])
    then show ?thesis by (simp add: i t)
  qed
  with e i show ?thesis by blast
qed

theorem no_braces_ParseError_witness:
  "parseResponse ''Sorry, there is nothing to score.'' example_profile ''Bob'' = Inl ParseError \<and>
   extractJson ''  [1, 2] '' = ''[1, 2]''"
proof -
  have t: "trim ''Sorry, there is nothing to score.'' = ''Sorry, there is nothing to score.''"
    by code_simp
  have u: "trim ''  [1, 2] '' = ''[1, 2]''" by code_simp
  show ?thesis
    using no_braces_ParseError [of "''Sorry, there is nothing to score.''" example_profile "''Bob''"
        "CHR ''S''" "''orry, there is nothing to score.''"]
      no_braces_ParseError [of "''  [1, 2] ''"]
    by (simp add: t u)
qed

text \<open>
  A text without braces that raises no parse error: a bare number is a JSON text and gives
  the report of defaults, as white space alone does; \<^verbatim>\<open>null\<close> decodes and then raises a
  TypeError.
\<close>

theorem no_braces_counterexample:
  "CHR ''{'' \<notin> set ''123'' \<and> CHR ''}'' \<notin> set ''123'' \<and>
   parseResponse ''123'' example_profile ''Bob'' =
     Inr \<lparr>candidate_name = JStr ''Bob'',
          technical_scores = [not_evaluated ''A'', not_evaluated ''B''],
          non_technical_scores = [not_evaluated ''C''],
          personal_assessment_scores = [],
          overall_level = JStr ''Junior'',
          overall_comment = JStr ''See interview notes for details.'',
          ai_evaluation = []\<rparr> \<and>
   parseResponse ''  '' example_profile ''Bob'' = parseResponse ''123'' example_profile ''Bob'' \<and>
   parseResponse ''null'' example_profile ''Bob'' = Inl TypeError"
  by code_simp

text \<open>
  A content of white space alone gives the report of the empty content.
\<close>

theorem whitespace_only_defaults:
  assumes "\<forall>x \<in> set content. isWhiteSpace x"
  shows "parseResponse content P c = parseResponse [] P c"
proof -
  have "dropWhile isWhiteSpace content = []" using assms by auto
  then have t: "trim content = []" by (simp only: trim_def) simp
  have "\<not> isWhiteSpace (CHR ''{'')" by (simp add: isWhiteSpace_def)
  then have "CHR ''{'' \<notin> set content" using assms by blast
  then have "extractJson content = trim content" by (rule extractJson_no_open)
  then have "extractJson content = []" by (simp only: t)
  moreover have "extractJson [] = []" using extractJson_no_open [of "[]"] by (simp add: trim_def)
  ultimately show ?thesis by (simp add: parseResponse_def)
qed

theorem whitespace_only_defaults_witness:
  "parseResponse (CHR 0x20 # CHR 0x0A # [CHR 0x09]) example_profile ''Bob'' =
     parseResponse [] example_profile ''Bob''"
proof -
  have "\<forall>x \<in> set (CHR 0x20 # CHR 0x0A # [CHR 0x09]). isWhiteSpace x"
    by (simp add: isWhiteSpace_def)
  then show ?thesis by (rule whitespace_only_defaults)
qed

text \<open>
  Claim C10, as amended. The empty content raises no error. The report holds, for every area
  of the profile, the entry without score and with the placeholder comment, the name the
  caller gave, the placeholder overall comment, and as overall level the first level of the
  profile, or \<^verbatim>\<open>"Medior"\<close> when the profile has no level or its first level is the empty
  string. A reply without the content path has the empty content.
\<close>

theorem empty_content_defaults:
  "parseResponse [] P c =
     Inr \<lparr>candidate_name = JStr c,
          technical_scores = map not_evaluated (technical P),
          non_technical_scores = map not_evaluated (non_technical P),
          personal_assessment_scores =
            (case personal_assessment P of None \<Rightarrow> [] | Some areas \<Rightarrow> map not_evaluated areas),
          overall_level =
            JStr (if overall_levels P = [] \<or> hd (overall_levels P) = [] then ''Medior''
                  else hd (overall_levels P)),
          overall_comment = JStr ''See interview notes for details.'',
          ai_evaluation = []\<rparr> \<and>
   reply_content (JObj []) = Inr (JStr []) \<and>
   (reply_content reply = Inr (JStr []) \<longrightarrow> adapter_result reply P c = parseResponse [] P c)"
proof -
  have e: "extractJson [] = []"
    using extractJson_no_open [of "[]"] by (simp add: trim_def)
  have p: "parseResponse [] P c = build_report (JObj []) P c"
    by (simp add: parseResponse_def e JSON_parse_empty_object)
  have g: "\<And>k. \<not> truthy (get (JObj []) k)" by (simp add: get_def)
  have s: "\<And>k areas. parseScores k areas (JObj []) = Inr (map not_evaluated areas)"
    by (rule parseScores_absent) (simp_all add: g)
  have l: "overallLevel P (JObj []) = JStr (defaultLevel P)"
    by (simp add: overallLevel_def js_or_def get_def Let_def)
  have b: "build_report (JObj []) P c =
     Inr \<lparr>candidate_name = JStr c,
          technical_scores = map not_evaluated (technical P),
          non_technical_scores = map not_evaluated (non_technical P),
          personal_assessment_scores =
            (case personal_assessment P of None \<Rightarrow> [] | Some areas \<Rightarrow> map not_evaluated areas),
          overall_level = JStr (defaultLevel P),
          overall_comment = JStr ''See interview notes for details.'',
          ai_evaluation = []\<rparr>"
    unfolding build_report_def s l
    by (simp add: js_or_def get_def split: option.splits list.splits)
  have r: "reply_content (JObj []) = Inr (JStr [])"
    by (simp add: reply_content_def get_def opt_first_def opt_get_def js_or_def)
  show ?thesis
    unfolding p b by (simp add: r defaultLevel_eq adapter_result_def p b)
qed

theorem empty_content_defaults_witness:
  "parseResponse [] example_profile ''Bob'' =
     Inr \<lparr>candidate_name = JStr ''Bob'',
          technical_scores = [not_evaluated ''A'', not_evaluated ''B''],
          non_technical_scores = [not_evaluated ''C''],
          personal_assessment_scores = [],
          overall_level = JStr ''Junior'',
          overall_comment = JStr ''See interview notes for details.'',
          ai_evaluation = []\<rparr> \<and>
   adapter_result (JObj [(''choices'', JArr [])]) example_profile ''Bob'' =
     parseResponse [] example_profile ''Bob''"
proof -
  have "reply_content (JObj [(''choices'', JArr [])]) = Inr (JStr [])"
    by (simp add: reply_content_def get_def opt_first_def opt_get_def js_or_def)
  then show ?thesis
    using empty_content_defaults [of example_profile "''Bob''" "JObj [(''choices'', JArr [])]"]
    by (simp add: example_profile_def)
qed

text \<open>
  With the empty string as first level, the overall level of the empty content is
  \<^verbatim>\<open>"Medior"\<close>, not that first level.
\<close>

theorem empty_content_counterexample:
  "parseResponse [] blank_level_profile ''Bob'' =
     Inr \<lparr>candidate_name = JStr ''Bob'',
          technical_scores = [not_evaluated ''A'', not_evaluated ''B''],
          non_technical_scores = [not_evaluated ''C''],
          personal_assessment_scores = [],
          overall_level = JStr ''Medior'',
          overall_comment = JStr ''See interview notes for details.'',
          ai_evaluation = []\<rparr> \<and>
   JStr ''Medior'' \<noteq> JStr (hd (overall_levels blank_level_profile))"
  by code_simp

section \<open>Scores\<close>

text \<open>
  Claim C1 asks for one entry per profile area whatever the model returned. The code raises
  a TypeError instead of returning a report when a decoded score list is an object, holds
  \<^verbatim>\<open>null\<close>, or holds an entry whose name is a number.
\<close>

theorem scores_object_TypeError:
  \<open>parseResponse ''{"technical_scores": {"A": 4}}'' example_profile ''Bob'' = Inl TypeError \<and>
   parseResponse ''{"technical_scores": [null]}'' example_profile ''Bob'' = Inl TypeError \<and>
   parseResponse ''{"technical_scores": [{"name": 7}]}'' example_profile ''Bob'' = Inl TypeError\<close>
  by code_simp

text \<open>
  Whenever \<^verbatim>\<open>parseScores\<close> returns, it returns one entry per area, named as the areas are and
  in their order.
\<close>

theorem parseScores_one_entry_per_area:
  assumes "parseScores dataKey areas data = Inr entries"
  shows "map name entries = areas \<and> length entries = length areas"
proof -
  have "map name entries = areas" using assms by (rule parseScores_names)
  then show ?thesis by (metis length_map)
qed

theorem parseScores_one_entry_per_area_witness:
  "map name [not_evaluated ''A'', \<lparr>name = ''B'', score = Some 4, comment = ''ok''\<rparr>] = [''A'', ''B'']"
proof -
  have "parseScores ''technical_scores'' [''A'', ''B'']
          (JObj [(''technical_scores'',
             JArr [JObj [(''name'', JStr ''b''), (''score'', JNum 4), (''comment'', JStr ''ok'')]])]) =
        Inr [not_evaluated ''A'', \<lparr>name = ''B'', score = Some 4, comment = ''ok''\<rparr>]"
    by code_simp
  from parseScores_one_entry_per_area [OF this] show ?thesis by simp
qed

text \<open>
  For decoded data other than \<^verbatim>\<open>null\<close> in which the key of the score list is missing (or
  holds a falsy value), every area gets the entry without score and with the placeholder
  comment.
\<close>

theorem parseScores_missing_key:
  assumes "data \<noteq> JNull" and "\<not> truthy (get data dataKey)"
  shows "parseScores dataKey areas data = Inr (map not_evaluated areas) \<and>
         not_evaluated area = \<lparr>name = area, score = None, comment = ''Not evaluated/not enough data''\<rparr>"
  using parseScores_absent [OF assms] by (simp add: not_evaluated_def placeholder_def)

theorem parseScores_missing_key_witness:
  "parseScores ''technical_scores'' [''A'', ''B''] (JObj [(''overall_level'', JStr ''Lead'')]) =
     Inr [not_evaluated ''A'', not_evaluated ''B'']"
proof -
  have 1: "JObj [(''overall_level'', JStr ''Lead'')] \<noteq> JNull" by simp
  have 2: "\<not> truthy (get (JObj [(''overall_level'', JStr ''Lead'')]) ''technical_scores'')"
    by (simp add: get_def)
  from parseScores_missing_key [OF 1 2, of "[''A'', ''B'']"] show ?thesis by simp
qed

text \<open>
  Claim C3. A decoded score that is not a number, or a number outside the range 1 to 5,
  gives the score \<^verbatim>\<open>null\<close>; a number in the range is taken as it is, neither clamped
  nor rounded.
\<close>

theorem parseScore_range:
  "((\<forall>x. val \<noteq> Some (JNum x)) \<longrightarrow> parseScore val = None) \<and>
   (x < 1 \<or> 5 < x \<longrightarrow> parseScore (Some (JNum x)) = None) \<and>
   (1 \<le> x \<and> x \<le> 5 \<longrightarrow> parseScore (Some (JNum x)) = Some x)"
  by (auto simp: parseScore_def split: option.splits json.splits)

theorem parseScore_range_witness:
  "parseScore (Some (JStr ''4'')) = None \<and> parseScore None = None \<and>
   parseScore (Some (JNum 6)) = None \<and> parseScore (Some (JNum 0)) = None \<and>
   parseScore (Some (JNum (9 / 2))) = Some (9 / 2)"
  using parseScore_range [of "Some (JStr ''4'')" 6] parseScore_range [of None 0]
    parseScore_range [of None "9 / 2"]
  by simp

text \<open>
  Claim C8, as amended. In every report the normalizer returns, the score of every entry is
  \<^verbatim>\<open>null\<close> or a number from 1 to 5, which need not be an integer.
\<close>

theorem score_null_or_in_range:
  assumes "parseResponse content P c = Inr r"
    and "entry \<in> set (technical_scores r @ non_technical_scores r @ personal_assessment_scores r)"
  shows "score entry = None \<or> (\<exists>x. score entry = Some x \<and> 1 \<le> x \<and> x \<le> 5)"
proof -
  obtain data where b: "build_report data P c = Inr r"
    using parseResponse_Inr [OF assms(1)] by blast
  from assms(2) consider "entry \<in> set (technical_scores r)"
    | "entry \<in> set (non_technical_scores r)" | "entry \<in> set (personal_assessment_scores r)"
    by auto
  then show ?thesis
  proof cases
    case 1
    with build_report_Inr(1) [OF b] show ?thesis by (rule parseScores_scores)
  next
    case 2
    with build_report_Inr(2) [OF b] show ?thesis by (rule parseScores_scores)
  next
    case 3
    then have "personal_assessment_scores r \<noteq> []" by auto
    then obtain areas where
      "parseScores ''personal_assessment_scores'' areas data = Inr (personal_assessment_scores r)"
      using build_report_Inr(3) [OF b] by blast
    then show ?thesis using 3 by (rule parseScores_scores)
  qed
qed

theorem score_null_or_in_range_witness:
  \<open>parseResponse ''{"technical_scores": [{"name": "A", "score": 3.5, "comment": "ok"}]}''
      example_profile ''Bob'' =
     Inr \<lparr>candidate_name = JStr ''Bob'',
          technical_scores = [\<lparr>name = ''A'', score = Some (7 / 2), comment = ''ok''\<rparr>,
                              not_evaluated ''B''],
          non_technical_scores = [not_evaluated ''C''],
          personal_assessment_scores = [],
          overall_level = JStr ''Junior'',
          overall_comment = JStr ''See interview notes for details.'',
          ai_evaluation = []\<rparr> \<and>
   (1 :: rat) \<le> 7 / 2 \<and> (7 / 2 :: rat) \<le> 5\<close>
proof -
  let ?r = "\<lparr>candidate_name = JStr ''Bob'',
          technical_scores = [\<lparr>name = ''A'', score = Some (7 / 2), comment = ''ok''\<rparr>,
                              not_evaluated ''B''],
          non_technical_scores = [not_evaluated ''C''],
          personal_assessment_scores = [],
          overall_level = JStr ''Junior'',
          overall_comment = JStr ''See interview notes for details.'',
          ai_evaluation = []\<rparr>"
  have r: \<open>parseResponse ''{"technical_scores": [{"name": "A", "score": 3.5, "comment": "ok"}]}''
      example_profile ''Bob'' = Inr ?r\<close>
    by code_simp
  show ?thesis
    using r score_null_or_in_range [OF r, of "\<lparr>name = ''A'', score = Some (7 / 2), comment = ''ok''\<rparr>"]
    by simp
qed

text \<open>
  The decoded score 3.5 is in the report as it is.
\<close>

theorem fractional_score_counterexample:
  \<open>parseResponse ''{"technical_scores": [{"name": "A", "score": 3.5, "comment": "ok"}]}''
      example_profile ''Bob'' =
     Inr \<lparr>candidate_name = JStr ''Bob'',
          technical_scores = [\<lparr>name = ''A'', score = Some (7 / 2), comment = ''ok''\<rparr>,
                              not_evaluated ''B''],
          non_technical_scores = [not_evaluated ''C''],
          personal_assessment_scores = [],
          overall_level = JStr ''Junior'',
          overall_comment = JStr ''See interview notes for details.'',
          ai_evaluation = []\<rparr> \<and>
   (7 / 2 :: rat) \<notin> \<int>\<close>
  by (rule conjI, code_simp, simp)

section \<open>Names\<close>

text \<open>
  Claim C4. Two names match when their normal forms are equal. The normal form lowercases
  the name, trims the white space around it and rewrites every \<^verbatim>\<open>a.k.a.\<close> to \<^verbatim>\<open>aka\<close>,
  wherever it stands in the name (and after that every remaining \<^verbatim>\<open>a.k.a\<close>). It is no
  substring test: \<^verbatim>\<open>" Communication "\<close> matches \<^verbatim>\<open>"Communication"\<close>, and
  \<^verbatim>\<open>"Comms (a.k.a. Communication)"\<close> does not, while it matches
  \<^verbatim>\<open>"comms (AKA communication) "\<close>.
\<close>

theorem matches_normalized:
  "(matches respName canonical \<longleftrightarrow> norm respName = norm canonical) \<and>
   norm s = replace_g ''a.k.a'' ''aka'' (replace_g ''a.k.a.'' ''aka'' (trim (toLowerCase s))) \<and>
   toLowerCase s = map lower_char s \<and>
   (65 \<le> (of_char c :: nat) \<and> (of_char c :: nat) \<le> 90 \<longrightarrow>
      (of_char (lower_char c) :: nat) = of_char c + 32) \<and>
   ((of_char c :: nat) < 65 \<or> (90 < (of_char c :: nat) \<and> (of_char c :: nat) < 192) \<longrightarrow>
      lower_char c = c) \<and>
   ((\<forall>x \<in> set l. isWhiteSpace x) \<and> (\<forall>x \<in> set r. isWhiteSpace x) \<longrightarrow>
      trim (l @ s @ r) = trim s) \<and>
   (s = [] \<or> (\<not> isWhiteSpace (hd s) \<and> \<not> isWhiteSpace (last s)) \<longrightarrow> trim s = s) \<and>
   (\<not> sublist pat t \<longrightarrow> replace_g pat rep t = t) \<and>
   (pat \<noteq> [] \<and> \<not> sublist pat (u @ butlast pat) \<longrightarrow>
      replace_g pat rep (u @ pat @ v) = u @ rep @ replace_g pat rep v) \<and>
   matches (toLowerCase respName) canonical = matches respName canonical \<and>
   matches (trim respName) canonical = matches respName canonical \<and>
   matches ''a.k.a.'' ''aka'' \<and>
   matches '' Communication '' ''Communication'' \<and>
   matches (CHR 0x09 # ''COMMUNICATION'' @ [CHR 0x0A]) ''Communication'' \<and>
   \<not> matches ''Comms (a.k.a. Communication)'' ''Communication'' \<and>
   matches ''Comms (a.k.a. Communication)'' ''comms (AKA communication) '' \<and>
   matches ''Comms a.k.a Communication'' ''comms aka communication''"
proof -
  have "matches ''a.k.a.'' ''aka''" by code_simp
  moreover have "matches '' Communication '' ''Communication''" by code_simp
  moreover have "matches (CHR 0x09 # ''COMMUNICATION'' @ [CHR 0x0A]) ''Communication''"
    by code_simp
  moreover have "\<not> matches ''Comms (a.k.a. Communication)'' ''Communication''" by code_simp
  moreover have "matches ''Comms (a.k.a. Communication)'' ''comms (AKA communication) ''"
    by code_simp
  moreover have "matches ''Comms a.k.a Communication'' ''comms aka communication''"
    by code_simp
  moreover have "norm s = replace_g ''a.k.a'' ''aka'' (replace_g ''a.k.a.'' ''aka'' (trim (toLowerCase s)))"
    by (simp add: norm_def)
  moreover have "toLowerCase s = map lower_char s" by (simp add: toLowerCase_def)
  moreover have "matches respName canonical \<longleftrightarrow> norm respName = norm canonical"
    by (simp add: matches_def)
  moreover have "matches (toLowerCase respName) canonical = matches respName canonical"
    by (simp add: matches_def norm_toLowerCase)
  moreover have "matches (trim respName) canonical = matches respName canonical"
    by (simp add: matches_def norm_trim)
  moreover note lower_char_ascii [of c] trim_surrounded [of l r s] trim_fixed [of s]
    replace_g_no_occurrence [of pat t rep] replace_g_leftmost [of pat u rep v]
  ultimately show ?thesis by blast
qed

theorem matches_normalized_witness:
  "replace_g ''a.k.a.'' ''aka'' ''comms (a.k.a. communication)'' = ''comms (aka communication)'' \<and>
   replace_g ''a.k.a'' ''aka'' ''comms (aka communication)'' = ''comms (aka communication)'' \<and>
   trim ''  Self impression '' = ''Self impression'' \<and>
   lower_char (CHR ''Q'') = CHR ''q'' \<and> lower_char (CHR ''#'') = CHR ''#'' \<and>
   matches ''  SELF Impression'' ''Self impression'' \<and>
   matches (toLowerCase ''DevOps'') ''devops '' = matches ''DevOps'' ''devops ''"
proof -
  have n: "\<not> sublist ''a.k.a.'' '' communication)''" by code_simp
  have m: "''a.k.a.'' \<noteq> [] \<and> \<not> sublist ''a.k.a.'' (''comms ('' @ butlast ''a.k.a.'')" by code_simp
  have 1: "replace_g ''a.k.a.'' ''aka'' ''comms (a.k.a. communication)'' = ''comms (aka communication)''"
    using matches_normalized [where pat = "''a.k.a.''" and rep = "''aka''" and u = "''comms (''"
        and v = "'' communication)''" and t = "'' communication)''"] n m
    by simp
  have k: "\<not> sublist ''a.k.a'' ''comms (aka communication)''" by code_simp
  have 2: "replace_g ''a.k.a'' ''aka'' ''comms (aka communication)'' = ''comms (aka communication)''"
    using matches_normalized [where pat = "''a.k.a''" and rep = "''aka''"
        and t = "''comms (aka communication)''"] k
    by blast
  have w: "(\<forall>x \<in> set ''  ''. isWhiteSpace x) \<and> (\<forall>x \<in> set '' ''. isWhiteSpace x) \<and>
           \<not> isWhiteSpace (hd ''Self impression'') \<and> \<not> isWhiteSpace (last ''Self impression'')"
    by (simp add: isWhiteSpace_def)
  have "trim (''  '' @ ''Self impression'' @ '' '') = trim ''Self impression''"
    using matches_normalized [where l = "''  ''" and r = "'' ''" and s = "''Self impression''"] w
    by blast
  moreover have "trim ''Self impression'' = ''Self impression''"
    using matches_normalized [where s = "''Self impression''"] w by blast
  ultimately have 3: "trim ''  Self impression '' = ''Self impression''" by simp
  have q: "(of_char (lower_char (CHR ''Q'')) :: nat) = of_char (CHR ''Q'') + 32"
    using matches_normalized [where c = "CHR ''Q''"] by simp
  have "(of_char (lower_char (CHR ''Q'')) :: nat) = of_char (CHR ''q'')" unfolding q by simp
  then have 4: "lower_char (CHR ''Q'') = CHR ''q''" by (simp only: of_char_eq_iff)
  have 5: "lower_char (CHR ''#'') = CHR ''#''"
    using matches_normalized [where c = "CHR ''#''"] by simp
  have "norm ''  SELF Impression'' = norm ''Self impression''" by code_simp
  then have 6: "matches ''  SELF Impression'' ''Self impression''"
    using matches_normalized [where respName = "''  SELF Impression''"
        and canonical = "''Self impression''"] by blast
  have 7: "matches (toLowerCase ''DevOps'') ''devops '' = matches ''DevOps'' ''devops ''"
    using matches_normalized [where respName = "''DevOps''" and canonical = "''devops ''"]
    by blast
  from 1 2 3 4 5 6 7 show ?thesis by blast
qed

section \<open>Overall level, candidate name and overall comment\<close>

text \<open>
  Claim C5, as amended. For a profile whose levels are not empty and hold no empty string,
  the overall level is the decoded one when that is one of the levels, and the first level
  in every other case.
\<close>

theorem overallLevel_fallback:
  assumes "overall_levels P \<noteq> []" and "[] \<notin> set (overall_levels P)"
  shows "(l \<in> set (overall_levels P) \<and> get data ''overall_level'' = Some (JStr l) \<longrightarrow>
            overallLevel P data = JStr l) \<and>
         (get data ''overall_level'' \<notin> Some ` JStr ` set (overall_levels P) \<longrightarrow>
            overallLevel P data = JStr (hd (overall_levels P))) \<and>
         (build_report data P c = Inr r \<longrightarrow> overall_level r = overallLevel P data)"
  using build_report_Inr(4) [of data P c r]
  by (auto simp add: overallLevel_cases [OF assms] split: option.splits json.splits)

theorem overallLevel_fallback_witness:
  "overallLevel example_profile (JObj [(''overall_level'', JStr ''Senior'')]) = JStr ''Senior'' \<and>
   overallLevel example_profile (JObj [(''overall_level'', JStr ''Lead'')]) = JStr ''Junior'' \<and>
   overallLevel example_profile (JObj [(''overall_level'', JNum 2)]) = JStr ''Junior'' \<and>
   overallLevel example_profile (JObj []) = JStr ''Junior''"
proof -
  have 1: "overall_levels example_profile \<noteq> []" by (simp add: example_profile_def)
  have 2: "[] \<notin> set (overall_levels example_profile)" by (simp add: example_profile_def)
  show ?thesis
    using overallLevel_fallback [OF 1 2, of "''Senior''" "JObj [(''overall_level'', JStr ''Senior'')]"]
      overallLevel_fallback [OF 1 2, of "''Senior''" "JObj [(''overall_level'', JStr ''Lead'')]"]
      overallLevel_fallback [OF 1 2, of "''Senior''" "JObj [(''overall_level'', JNum 2)]"]
      overallLevel_fallback [OF 1 2, of "''Senior''" "JObj []"]
    by (simp add: example_profile_def get_def image_iff)
qed

text \<open>
  With the empty string as first level, a decoded level that is not allowed gives
  \<^verbatim>\<open>"Medior"\<close>, not that first level.
\<close>

theorem blank_level_counterexample:
  \<open>overall_levels blank_level_profile \<noteq> [] \<and>
   ''Lead'' \<notin> set (overall_levels blank_level_profile) \<and>
   hd (overall_levels blank_level_profile) = [] \<and>
   parseResponse ''{"overall_level": "Lead"}'' blank_level_profile ''Bob'' =
     Inr \<lparr>candidate_name = JStr ''Bob'',
          technical_scores = [not_evaluated ''A'', not_evaluated ''B''],
          non_technical_scores = [not_evaluated ''C''],
          personal_assessment_scores = [],
          overall_level = JStr ''Medior'',
          overall_comment = JStr ''See interview notes for details.'',
          ai_evaluation = []\<rparr>\<close>
  by code_simp

text \<open>
  Claim C9 asks for the decoded candidate name and overall comment only when they are
  non-empty strings. The code takes every truthy decoded value: a number as candidate name
  and \<^verbatim>\<open>true\<close> as overall comment are in the report.
\<close>

theorem candidate_name_number:
  \<open>parseResponse ''{"candidate_name": 42, "overall_comment": true}'' example_profile ''Bob'' =
     Inr \<lparr>candidate_name = JNum 42,
          technical_scores = [not_evaluated ''A'', not_evaluated ''B''],
          non_technical_scores = [not_evaluated ''C''],
          personal_assessment_scores = [],
          overall_level = JStr ''Junior'',
          overall_comment = JBool True,
          ai_evaluation = []\<rparr>\<close>
  by code_simp

section \<open>The orchestrator's choice of adapter\<close>

text \<open>
  Claim C7, as amended. The mode \<^verbatim>\<open>"api"\<close> selects the remote-API adapter; every other
  mode, and an options object without a mode, selects the local-model adapter.
\<close>

theorem generateFeedback_mode:
  "generateFeedback \<lparr>mode = None\<rparr> = WebLLM \<and>
   generateFeedback \<lparr>mode = Some (JStr ''api'')\<rparr> = API \<and>
   (m \<noteq> JStr ''api'' \<longrightarrow> generateFeedback \<lparr>mode = Some m\<rparr> = WebLLM)"
  by (simp add: generateFeedback_def)

theorem generateFeedback_mode_witness:
  "generateFeedback \<lparr>mode = Some (JStr ''webllm'')\<rparr> = WebLLM \<and>
   generateFeedback \<lparr>mode = Some (JStr ''local'')\<rparr> = WebLLM"
  using generateFeedback_mode [of "JStr ''webllm''"] generateFeedback_mode [of "JStr ''local''"]
  by simp

text \<open>
  The mode \<^verbatim>\<open>"remote"\<close> does not select the remote-API adapter.
\<close>

theorem remote_mode_counterexample:
  "generateFeedback \<lparr>mode = Some (JStr ''remote'')\<rparr> = WebLLM \<and>
   generateFeedback \<lparr>mode = Some (JStr ''remote'')\<rparr> \<noteq> API"
  by (simp add: generateFeedback_def)

end
